theory Spec2Isabelle
  imports Main "HOL-Library.Sublist"
begin

section \<open>The drime backend: data model\<close>

text \<open>
  The backend is present in two revisions. The revision of \<^verbatim>\<open>drime.go\<close> that keeps one
  table \<^verbatim>\<open>dirCache\<close> (path to entry) is called the dirCache variant below, the revision that
  keeps \<^verbatim>\<open>pathCache\<close> (path to id) and \<^verbatim>\<open>entryCache\<close> (id to entry) the pathCache variant.
  Functions that differ between the revisions are embedded once per revision, the source name
  suffixed with the revision.

  Go's \<^verbatim>\<open>int64\<close> and \<^verbatim>\<open>int\<close> are modelled as \<open>int\<close>: the code compares and copies ids,
  status codes and page numbers and only ever increments the page counter by one, so 64-bit
  wrap-around plays no role. \<^verbatim>\<open>time.Time\<close> is a number of seconds.
\<close>

record FileEntry =
  ID :: int
  Name :: string
  Type :: string
  FileSize :: int
  FileHash :: "string option"
  UpdatedAt :: int
  ParentID :: "int option"
  URL :: string

text \<open>The zero value of the struct, which Go uses for every field a literal leaves out.\<close>

definition zero_FileEntry :: FileEntry where
  "zero_FileEntry =
     \<lparr>ID = 0, Name = [], Type = [], FileSize = 0, FileHash = None, UpdatedAt = 0,
      ParentID = None, URL = []\<rparr>"

record ListEntriesResponse =
  Data :: "FileEntry list"
  CurrentPage :: int
  LastPage :: int

record http_Response =
  StatusCode :: int

text \<open>
  Errors as values. \<open>RemoteError\<close> is an error produced outside this package (transport or
  HTTP status), \<open>Wrapped msg e\<close> is \<^verbatim>\<open>fmt.Errorf(msg + ": %w", e)\<close>.
\<close>

datatype error =
    ErrorObjectNotFound
  | ErrorDirNotFound
  | ErrorIsFile
  | ErrorIsDir
  | ErrorDirectoryNotEmpty
  | ErrorCantMove
  | ErrorCantDirMove
  | ContextCanceled
  | RemoteError string
  | Wrapped string error

section \<open>Go library functions used by the package\<close>

text \<open>\<^verbatim>\<open>strings.HasPrefix\<close> and \<^verbatim>\<open>strings.TrimPrefix\<close>.\<close>

definition strings_HasPrefix :: "string \<Rightarrow> string \<Rightarrow> bool" where
  "strings_HasPrefix s p = (length p \<le> length s \<and> take (length p) s = p)"

definition strings_TrimPrefix :: "string \<Rightarrow> string \<Rightarrow> string" where
  "strings_TrimPrefix s p = (if strings_HasPrefix s p then drop (length p) s else s)"

text \<open>
  \<^verbatim>\<open>strings.Trim(s, cutset)\<close>, \<^verbatim>\<open>strings.Split(s, sep)\<close> for a separator of one byte, and
  \<^verbatim>\<open>strings.Join\<close>. Splitting the empty string gives one empty part, as in Go.
\<close>

definition strings_Trim :: "string \<Rightarrow> string \<Rightarrow> string" where
  "strings_Trim s cutset =
     rev (dropWhile (\<lambda>c. c \<in> set cutset) (rev (dropWhile (\<lambda>c. c \<in> set cutset) s)))"

fun strings_Split :: "string \<Rightarrow> char \<Rightarrow> string list" where
  "strings_Split [] sep = [Nil]"
| "strings_Split (c # cs) sep =
     (if c = sep then [] # strings_Split cs sep
      else (case strings_Split cs sep of
              [] \<Rightarrow> [c # Nil]
            | p # ps \<Rightarrow> (c # p) # ps))"

fun strings_Join :: "string list \<Rightarrow> string \<Rightarrow> string" where
  "strings_Join [] sep = []"
| "strings_Join [x] sep = x"
| "strings_Join (x # y # ys) sep = x @ sep @ strings_Join (y # ys) sep"

text \<open>
  Package \<^verbatim>\<open>path\<close>, after its documentation. \<^verbatim>\<open>Clean\<close> works on the elements between
  slashes: empty elements and \<^verbatim>\<open>.\<close> are dropped, \<^verbatim>\<open>..\<close> removes the element before it,
  is dropped at the root of a rooted path and is kept at the start of any other path; the
  empty result is \<^verbatim>\<open>.\<close>. \<open>out\<close> holds the elements kept so far, last first.
\<close>

fun clean_elements :: "bool \<Rightarrow> string list \<Rightarrow> string list \<Rightarrow> string list" where
  "clean_elements rooted out [] = rev out"
| "clean_elements rooted out (c # cs) =
     (if c = [] \<or> c = ''.'' then clean_elements rooted out cs
      else if c = ''..'' then
        (case out of
           [] \<Rightarrow> if rooted then clean_elements rooted [] cs
                 else clean_elements rooted [''..''] cs
         | e # below \<Rightarrow>
             if e = ''..'' then clean_elements rooted (''..'' # out) cs
             else clean_elements rooted below cs)
      else clean_elements rooted (c # out) cs)"

definition path_Clean :: "string \<Rightarrow> string" where
  "path_Clean p =
     (case p of
        [] \<Rightarrow> ''.''
      | c # cs \<Rightarrow>
          (let rooted = (c = CHR ''/'');
               body = strings_Join (clean_elements rooted [] (strings_Split p (CHR ''/''))) ''/''
           in if rooted then CHR ''/'' # body
              else if body = [] then ''.'' else body))"

text \<open>\<^verbatim>\<open>path.Join\<close>: empty elements are ignored, the rest is joined and cleaned.\<close>

definition path_Join :: "string list \<Rightarrow> string" where
  "path_Join elem =
     (if filter (\<lambda>e. e \<noteq> []) elem = [] then []
      else path_Clean (strings_Join (filter (\<lambda>e. e \<noteq> []) elem) ''/''))"

text \<open>\<^verbatim>\<open>path.Dir\<close>: everything up to the last slash, cleaned.\<close>

definition path_Dir :: "string \<Rightarrow> string" where
  "path_Dir p = path_Clean (rev (dropWhile (\<lambda>c. c \<noteq> CHR ''/'') (rev p)))"

text \<open>
  \<^verbatim>\<open>path.Base\<close>: the last element, after trailing slashes are removed; \<^verbatim>\<open>.\<close> for the
  empty path and \<^verbatim>\<open>/\<close> for a path of slashes only.
\<close>

definition path_Base :: "string \<Rightarrow> string" where
  "path_Base p =
     (if p = [] then ''.''
      else
        (let q = rev (dropWhile (\<lambda>c. c = CHR ''/'') (rev p));
             r = rev (takeWhile (\<lambda>c. c \<noteq> CHR ''/'') (rev q))
         in if r = [] then ''/'' else r))"

section \<open>api.go\<close>

definition apiBaseURL :: string where
  "apiBaseURL = ''https://app.drime.cloud/api/v1''"

subsection \<open>shouldRetry\<close>

text \<open>
  \<^verbatim>\<open>shouldRetry(ctx, resp, err)\<close>. The context enters only through \<^verbatim>\<open>ctx.Err()\<close>, which
  is the first argument (\<open>None\<close> while the context is live). The branches are kept in the
  order of the source, including the \<^verbatim>\<open>switch\<close> whose case and fall-through return the same.
\<close>

definition shouldRetry ::
  "error option \<Rightarrow> http_Response option \<Rightarrow> error option \<Rightarrow> bool \<times> error option" where
  "shouldRetry ctx_Err resp err =
     (if err \<noteq> None then
        (if ctx_Err \<noteq> None then (False, err) else (True, err))
      else
        (case resp of
           None \<Rightarrow> (False, err)
         | Some r \<Rightarrow>
             if StatusCode r = 429 \<or> StatusCode r \<ge> 500 then (True, err)
             else if StatusCode r = 401 \<or> StatusCode r = 403 \<or> StatusCode r = 404
                     \<or> StatusCode r = 422 then (False, err)
             else (False, err)))"

subsection \<open>download\<close>

text \<open>
  The part of \<^verbatim>\<open>download\<close> that turns \<^verbatim>\<open>entry.URL\<close> into the \<^verbatim>\<open>RootURL\<close> of the
  request; the argument is \<^verbatim>\<open>entry.URL\<close>. Both revisions of \<^verbatim>\<open>api.go\<close> agree on it.
\<close>

definition download_url :: "string \<Rightarrow> string" where
  "download_url url =
     (if \<not> strings_HasPrefix url ''http://'' \<and> \<not> strings_HasPrefix url ''https://'' then
        (let downloadURL = strings_TrimPrefix url ''/'' in
         if strings_HasPrefix downloadURL ''api/''
         then ''https://app.drime.cloud/'' @ downloadURL
         else apiBaseURL @ ''/'' @ downloadURL)
      else url)"

subsection \<open>listEntries\<close>

text \<open>
  The remote service is outside the program. For \<^verbatim>\<open>listEntries\<close> it is a function
  \<open>srv\<close>: \<open>srv parentID page\<close> is what the paced call for that page leaves behind, the
  error or the decoded \<^verbatim>\<open>ListEntriesResponse\<close>. The loop has no bound of its own (a
  service that always announces a further page keeps it running), so the embedding is a
  partial function: \<open>None\<close> means that the call never returns. The second component of the
  result is the list of page numbers requested, in order.

  The revision in \<^verbatim>\<open>api.go\<close> stops on the page number the response carries, and wraps
  an error.
\<close>

partial_function (option) listEntries_api_loop ::
  "(int option \<Rightarrow> int \<Rightarrow> error + ListEntriesResponse) \<Rightarrow> int option \<Rightarrow> int \<Rightarrow>
   FileEntry list \<Rightarrow> int list \<Rightarrow> ((error + FileEntry list) \<times> int list) option" where
  "listEntries_api_loop srv parentID page allEntries reqs =
     (case srv parentID page of
        Inl e \<Rightarrow> Some (Inl (Wrapped ''list failed'' e), reqs @ [page])
      | Inr resp \<Rightarrow>
          (let allEntries' = allEntries @ Data resp in
           if CurrentPage resp \<ge> LastPage resp
           then Some (Inr allEntries', reqs @ [page])
           else listEntries_api_loop srv parentID (page + 1) allEntries' (reqs @ [page])))"

definition listEntries_api ::
  "(int option \<Rightarrow> int \<Rightarrow> error + ListEntriesResponse) \<Rightarrow> int option \<Rightarrow>
   ((error + FileEntry list) \<times> int list) option" where
  "listEntries_api srv parentID = listEntries_api_loop srv parentID 1 [] []"

text \<open>
  The other revision of the file stops on its own page counter and returns the error as
  it is.
\<close>

partial_function (option) listEntries_counter_loop ::
  "(int option \<Rightarrow> int \<Rightarrow> error + ListEntriesResponse) \<Rightarrow> int option \<Rightarrow> int \<Rightarrow>
   FileEntry list \<Rightarrow> int list \<Rightarrow> ((error + FileEntry list) \<times> int list) option" where
  "listEntries_counter_loop srv parentID page allEntries reqs =
     (case srv parentID page of
        Inl e \<Rightarrow> Some (Inl e, reqs @ [page])
      | Inr resp \<Rightarrow>
          (let allEntries' = allEntries @ Data resp in
           if page \<ge> LastPage resp
           then Some (Inr allEntries', reqs @ [page])
           else listEntries_counter_loop srv parentID (page + 1) allEntries' (reqs @ [page])))"

definition listEntries_counter ::
  "(int option \<Rightarrow> int \<Rightarrow> error + ListEntriesResponse) \<Rightarrow> int option \<Rightarrow>
   ((error + FileEntry list) \<times> int list) option" where
  "listEntries_counter srv parentID = listEntries_counter_loop srv parentID 1 [] []"

subsection \<open>The pacer\<close>

text \<open>
  Modelled from the spec: \<^verbatim>\<open>pacer.Call\<close> of \<^verbatim>\<open>lib/pacer\<close>, which the package calls
  and whose code is not among the sources. The spec (4.1, 5, 7) has it run the attempt,
  ask the classifier, try again while the classifier says so, and return the error of the
  last attempt once the classifier says no or the retries are used up. \<open>retries\<close> is the
  number of further attempts allowed after the first one; \<open>fn k\<close> is what attempt number
  \<open>k\<close> (from 0) returns. The result is the number of attempts made and the error returned.
  Sleeping between attempts is left out.
\<close>

primrec pacer_Call :: "nat \<Rightarrow> (nat \<Rightarrow> bool \<times> error option) \<Rightarrow> nat \<Rightarrow> nat \<times> error option" where
  "pacer_Call 0 fn k = (Suc k, snd (fn k))"
| "pacer_Call (Suc retries) fn k =
     (if fst (fn k) then pacer_Call retries fn (Suc k) else (Suc k, snd (fn k)))"

subsection \<open>createFolder\<close>

text \<open>
  What one attempt of the creation request leaves in the variables the closure writes:
  \<^verbatim>\<open>httpResp\<close>, \<^verbatim>\<open>err\<close> and the decoded \<^verbatim>\<open>resp.Folder\<close>.
\<close>

record attempt =
  a_resp :: "http_Response option"
  a_err :: "error option"
  a_folder :: FileEntry

text \<open>What \<^verbatim>\<open>createFolder\<close> does to the outside, in order.\<close>

datatype event = EvList "int option" | EvPost | EvSleep nat

text \<open>
  \<open>ls k parent\<close> is what the \<open>k\<close>-th call of \<^verbatim>\<open>c.listEntries\<close> within one run of
  \<^verbatim>\<open>createFolder\<close> returns (the listing may change from call to call), \<open>post k\<close> is the
  \<open>k\<close>-th attempt of the request.

  The search for a folder of the given name in a listing, which the source writes three
  times as the same loop: the first match wins, a failed listing finds nothing.
\<close>

definition find_folder :: "string \<Rightarrow> error + FileEntry list \<Rightarrow> FileEntry option" where
  "find_folder name r =
     (case r of
        Inl e \<Rightarrow> None
      | Inr entries \<Rightarrow> find (\<lambda>x. Name x = name \<and> Type x = ''folder'') entries)"

text \<open>The closure handed to the pacer: a 422 is never retried, the rest is classified.\<close>

definition createFolder_fn ::
  "error option \<Rightarrow> (nat \<Rightarrow> attempt) \<Rightarrow> nat \<Rightarrow> bool \<times> error option" where
  "createFolder_fn ctx_Err post k =
     (case a_resp (post k) of
        Some r \<Rightarrow>
          if StatusCode r = 422 then (False, a_err (post k))
          else shouldRetry ctx_Err (a_resp (post k)) (a_err (post k))
      | None \<Rightarrow> shouldRetry ctx_Err (a_resp (post k)) (a_err (post k)))"

text \<open>\<^verbatim>\<open>createFolder\<close> of \<^verbatim>\<open>api.go\<close>.\<close>

definition createFolder_api ::
  "error option \<Rightarrow> nat \<Rightarrow> (nat \<Rightarrow> int option \<Rightarrow> error + FileEntry list) \<Rightarrow> (nat \<Rightarrow> attempt) \<Rightarrow>
   string \<Rightarrow> int \<Rightarrow> (error + FileEntry) \<times> event list" where
  "createFolder_api ctx_Err retries ls post name parentID =
     (case find_folder name (ls 0 (Some parentID)) of
        Some e \<Rightarrow> (Inr e, [EvList (Some parentID)])
      | None \<Rightarrow>
          (case pacer_Call retries (createFolder_fn ctx_Err post) 0 of
             (n, err) \<Rightarrow>
               (case err of
                  Some e \<Rightarrow>
                    (Inl (Wrapped ''create folder failed'' e),
                     EvList (Some parentID) # replicate n EvPost)
                | None \<Rightarrow>
                    (Inr (a_folder (post (n - 1))),
                     EvList (Some parentID) # replicate n EvPost))))"

text \<open>
  The other revision looks the folder up again after a 422: up to three listings, half a
  second of sleep before the second and the third. \<open>attempt\<close> is the loop variable; the
  pre-check was listing number 0, so attempt \<open>a\<close> is listing number \<open>a + 1\<close>.
\<close>

function find_after_422 ::
  "(nat \<Rightarrow> int option \<Rightarrow> error + FileEntry list) \<Rightarrow> int option \<Rightarrow> string \<Rightarrow> nat \<Rightarrow>
   event list \<Rightarrow> FileEntry option \<times> event list" where
  "find_after_422 ls checkParentID name attempt evs =
     (if attempt < 3 then
        (let evs1 = (if attempt > 0 then evs @ [EvSleep 500] else evs);
             evs2 = evs1 @ [EvList checkParentID]
         in case find_folder name (ls (Suc attempt) checkParentID) of
              Some e \<Rightarrow> (Some e, evs2)
            | None \<Rightarrow> find_after_422 ls checkParentID name (attempt + 1) evs2)
      else (None, evs))"
  by pat_completeness auto
termination
  by (relation "measure (\<lambda>(ls, checkParentID, name, attempt, evs). 3 - attempt)") auto

declare find_after_422.simps [simp del]

definition createFolder_reconcile ::
  "error option \<Rightarrow> nat \<Rightarrow> (nat \<Rightarrow> int option \<Rightarrow> error + FileEntry list) \<Rightarrow> (nat \<Rightarrow> attempt) \<Rightarrow>
   string \<Rightarrow> int \<Rightarrow> (error + FileEntry) \<times> event list" where
  "createFolder_reconcile ctx_Err retries ls post name parentID =
     (let checkParentID = (if parentID = 0 then None else Some parentID) in
      case find_folder name (ls 0 checkParentID) of
        Some e \<Rightarrow> (Inr e, [EvList checkParentID])
      | None \<Rightarrow>
          (case pacer_Call retries (createFolder_fn ctx_Err post) 0 of
             (n, err) \<Rightarrow>
               (let evs = EvList checkParentID # replicate n EvPost in
                case err of
                  Some e \<Rightarrow>
                    (case a_resp (post (n - 1)) of
                       Some r \<Rightarrow>
                         if StatusCode r = 422 then
                           (case find_after_422 ls checkParentID name 0 evs of
                              (Some found, evs') \<Rightarrow> (Inr found, evs')
                            | (None, evs') \<Rightarrow>
                                (Inl (Wrapped ''create folder failed'' e), evs'))
                         else (Inl (Wrapped ''create folder failed'' e), evs)
                     | None \<Rightarrow> (Inl (Wrapped ''create folder failed'' e), evs))
                | None \<Rightarrow> (Inr (a_folder (post (n - 1))), evs))))"

section \<open>drime.go and object.go\<close>

subsection \<open>The remote service and the session state\<close>

text \<open>
  The functions of \<^verbatim>\<open>drime.go\<close> reach the service through the methods of the API client.
  A \<open>service\<close> says what each of these methods returns: the first argument is the number
  of API calls the session has made before this one, so that the answers may change with
  time in any way (other clients, eventual consistency, the effect of the session's own
  requests). The session records every call it makes in the field \<open>calls\<close>, which exists
  in the model only; it is the clock of the service and the means to say which requests an
  operation has issued.
\<close>

datatype call =
    ListCall "int option"
  | CreateCall string int
  | DeleteCall "int list" bool
  | RenameCall int string
  | MoveCall "int list" int

record service =
  on_listEntries :: "nat \<Rightarrow> int option \<Rightarrow> error + FileEntry list"
  on_createFolder :: "nat \<Rightarrow> string \<Rightarrow> int \<Rightarrow> error + FileEntry"
  on_deleteEntries :: "nat \<Rightarrow> int list \<Rightarrow> bool \<Rightarrow> error option"
  on_renameEntry :: "nat \<Rightarrow> int \<Rightarrow> string \<Rightarrow> error + FileEntry"
  on_moveEntries :: "nat \<Rightarrow> int list \<Rightarrow> int \<Rightarrow> error option"

text \<open>
  \<^verbatim>\<open>Fs\<close>: the fields the two revisions share, then the tables of each revision. The
  caches hold pointers to entries that are never written through, so they hold values here.
  A \<^verbatim>\<open>sync.Once\<close> stored in \<^verbatim>\<open>mkdirCache\<close> is running or done.
\<close>

record Fs =
  root :: string
  calls :: "call list"

datatype once = Running | Done

record Fs_dirCache = Fs +
  dirCache :: "string \<rightharpoonup> FileEntry"
  mkdirCache :: "string \<rightharpoonup> once"

record Fs_pathCache = Fs +
  pathCache :: "string \<rightharpoonup> int"
  entryCache :: "int \<rightharpoonup> FileEntry"
  rootID :: "int option"

text \<open>The tables as \<^verbatim>\<open>NewFs\<close> makes them; \<^verbatim>\<open>rootID\<close> is never assigned.\<close>

definition NewFs_dirCache :: "string \<Rightarrow> Fs_dirCache" where
  "NewFs_dirCache r =
     \<lparr>root = strings_Trim r ''/'', calls = [], dirCache = Map.empty, mkdirCache = Map.empty\<rparr>"

definition NewFs_pathCache :: "string \<Rightarrow> Fs_pathCache" where
  "NewFs_pathCache r =
     \<lparr>root = strings_Trim r ''/'', calls = [], pathCache = Map.empty, entryCache = Map.empty,
      rootID = None\<rparr>"

record Object =
  obj_remote :: string
  obj_id :: int
  obj_size :: int
  obj_modTime :: int

text \<open>An \<^verbatim>\<open>fs.Object\<close> is an object of this backend or of another one.\<close>

datatype fs_Object = DrimeObject Object | ForeignObject


text \<open>The API calls: ask the service, record the call.\<close>

definition api_listEntries ::
  "service \<Rightarrow> int option \<Rightarrow> 'a Fs_scheme \<Rightarrow> (error + FileEntry list) \<times> 'a Fs_scheme" where
  "api_listEntries svc parentID s =
     (on_listEntries svc (length (calls s)) parentID, s\<lparr>calls := calls s @ [ListCall parentID]\<rparr>)"

definition api_createFolder ::
  "service \<Rightarrow> string \<Rightarrow> int \<Rightarrow> 'a Fs_scheme \<Rightarrow> (error + FileEntry) \<times> 'a Fs_scheme" where
  "api_createFolder svc name parentID s =
     (on_createFolder svc (length (calls s)) name parentID,
      s\<lparr>calls := calls s @ [CreateCall name parentID]\<rparr>)"

definition api_deleteEntries ::
  "service \<Rightarrow> int list \<Rightarrow> bool \<Rightarrow> 'a Fs_scheme \<Rightarrow> error option \<times> 'a Fs_scheme" where
  "api_deleteEntries svc ids permanent s =
     (on_deleteEntries svc (length (calls s)) ids permanent,
      s\<lparr>calls := calls s @ [DeleteCall ids permanent]\<rparr>)"

definition api_renameEntry ::
  "service \<Rightarrow> int \<Rightarrow> string \<Rightarrow> 'a Fs_scheme \<Rightarrow> (error + FileEntry) \<times> 'a Fs_scheme" where
  "api_renameEntry svc i newName s =
     (on_renameEntry svc (length (calls s)) i newName,
      s\<lparr>calls := calls s @ [RenameCall i newName]\<rparr>)"

definition api_moveEntries ::
  "service \<Rightarrow> int list \<Rightarrow> int \<Rightarrow> 'a Fs_scheme \<Rightarrow> error option \<times> 'a Fs_scheme" where
  "api_moveEntries svc ids destinationID s =
     (on_moveEntries svc (length (calls s)) ids destinationID,
      s\<lparr>calls := calls s @ [MoveCall ids destinationID]\<rparr>)"

definition setMetadata :: "Object \<Rightarrow> FileEntry \<Rightarrow> Object" where
  "setMetadata obj entry =
     obj\<lparr>obj_id := ID entry, obj_size := FileSize entry, obj_modTime := UpdatedAt entry\<rparr>"

subsection \<open>The dirCache variant\<close>

definition addDirCacheEntry :: "string \<Rightarrow> FileEntry \<Rightarrow> Fs_dirCache \<Rightarrow> Fs_dirCache" where
  "addDirCacheEntry absPath entry s =
     (if Type entry \<noteq> ''folder'' then s
      else s\<lparr>dirCache := (dirCache s)(absPath \<mapsto> entry)\<rparr>)"

text \<open>
  The walk of \<^verbatim>\<open>findEntry\<close>. \<open>seen\<close> are the parts before the current one
  (\<^verbatim>\<open>parts[:i]\<close>), so \<^verbatim>\<open>i == 0\<close> is \<open>seen = []\<close>; the inner loop takes the first entry
  of the listing with the name of the part. Running out of parts is the return after the
  loop.
\<close>

fun findEntry_dirCache_walk ::
  "service \<Rightarrow> string \<Rightarrow> string list \<Rightarrow> string list \<Rightarrow> int \<Rightarrow> Fs_dirCache \<Rightarrow>
   (error + FileEntry) \<times> Fs_dirCache" where
  "findEntry_dirCache_walk svc remotePath seen [] currentID s = (Inl ErrorObjectNotFound, s)"
| "findEntry_dirCache_walk svc remotePath seen (part # rest) currentID s =
     (let currentPath = strings_Join (seen @ [part]) ''/'' in
      case dirCache s currentPath of
        Some cachedEntry \<Rightarrow>
          findEntry_dirCache_walk svc remotePath (seen @ [part]) rest (ID cachedEntry) s
      | None \<Rightarrow>
          (case api_listEntries svc (if seen = [] then None else Some currentID) s of
             (Inl err, s1) \<Rightarrow> (Inl err, s1)
           | (Inr entries, s1) \<Rightarrow>
               (case find (\<lambda>e. Name e = part) entries of
                  None \<Rightarrow> (Inl ErrorObjectNotFound, s1)
                | Some e \<Rightarrow>
                    (let s2 = (if Type e = ''folder'' then addDirCacheEntry currentPath e s1
                               else s1)
                     in if currentPath = remotePath then (Inr e, s2)
                        else findEntry_dirCache_walk svc remotePath (seen @ [part]) rest
                               (ID e) s2))))"

definition findEntry_dirCache ::
  "service \<Rightarrow> string \<Rightarrow> Fs_dirCache \<Rightarrow> (error + FileEntry) \<times> Fs_dirCache" where
  "findEntry_dirCache svc path s =
     (let remotePath = strings_Trim path ''/'' in
      if remotePath = [] then (Inr (zero_FileEntry\<lparr>ID := 0, Type := ''folder'', Name := []\<rparr>), s)
      else
        (case dirCache s remotePath of
           Some entry \<Rightarrow> (Inr entry, s)
         | None \<Rightarrow>
             findEntry_dirCache_walk svc remotePath [] (strings_Split remotePath (CHR ''/'')) 0 s))"


text \<open>
  The end of \<^verbatim>\<open>mkdir\<close>, from "Create folder" on: the entry that \<^verbatim>\<open>createFolder\<close>
  returns is stored without the guard of \<^verbatim>\<open>addDirCacheEntry\<close>.
\<close>

definition mkdir_create ::
  "service \<Rightarrow> string \<Rightarrow> int \<Rightarrow> Fs_dirCache \<Rightarrow> error option \<times> Fs_dirCache" where
  "mkdir_create svc dirPath parentID s =
     (case api_createFolder svc (path_Base dirPath) parentID s of
        (Inl createErr, s1) \<Rightarrow>
          (case findEntry_dirCache svc dirPath s1 of
             (Inr entry, s2) \<Rightarrow> (None, addDirCacheEntry dirPath entry s2)
           | (Inl findErr, s2) \<Rightarrow> (Some createErr, s2))
      | (Inr entry, s1) \<Rightarrow> (None, s1\<lparr>dirCache := (dirCache s1)(dirPath \<mapsto> entry)\<rparr>))"

text \<open>
  \<^verbatim>\<open>Mkdir\<close> and \<^verbatim>\<open>mkdir\<close> call each other, and nothing in the code bounds the recursion,
  so both take fuel; \<open>None\<close> means that the call does not return, because the fuel is
  spent or because \<^verbatim>\<open>Do\<close> is entered again on a \<^verbatim>\<open>sync.Once\<close> that is still running
  (which blocks for ever). \<^verbatim>\<open>LoadOrStore\<close> and \<^verbatim>\<open>Do\<close>: a path without a \<^verbatim>\<open>Once\<close> gets
  one and the function runs; on a \<^verbatim>\<open>Once\<close> that is done nothing runs and \<^verbatim>\<open>err\<close> keeps
  its zero value.
\<close>

function Mkdir_dirCache ::
  "nat \<Rightarrow> service \<Rightarrow> string \<Rightarrow> Fs_dirCache \<Rightarrow> (error option \<times> Fs_dirCache) option"
and mkdir_dirCache ::
  "nat \<Rightarrow> service \<Rightarrow> string \<Rightarrow> Fs_dirCache \<Rightarrow> (error option \<times> Fs_dirCache) option" where
  "Mkdir_dirCache 0 svc dir s = None"
| "Mkdir_dirCache (Suc fuel) svc dir s =
     (let dirPath = path_Join [root s, dir] in
      if dirPath = [] \<or> dirPath = ''.'' then Some (None, s)
      else
        (case mkdirCache s dirPath of
           Some Done \<Rightarrow> Some (None, s)
         | Some Running \<Rightarrow> None
         | None \<Rightarrow>
             (case mkdir_dirCache fuel svc dirPath
                     (s\<lparr>mkdirCache := (mkdirCache s)(dirPath \<mapsto> Running)\<rparr>) of
                None \<Rightarrow> None
              | Some (err, s') \<Rightarrow>
                  Some (err, s'\<lparr>mkdirCache := (mkdirCache s')(dirPath \<mapsto> Done)\<rparr>))))"
| "mkdir_dirCache fuel svc dirPath s =
     (case findEntry_dirCache svc dirPath s of
        (Inr found, s1) \<Rightarrow> Some (None, s1)
      | (Inl err, s1) \<Rightarrow>
          if err \<noteq> ErrorObjectNotFound then Some (Some err, s1)
          else
            (let parentPath = path_Dir dirPath in
             if parentPath \<noteq> [] \<and> parentPath \<noteq> ''.'' then
               (case Mkdir_dirCache fuel svc (strings_TrimPrefix parentPath (root s1 @ ''/'')) s1 of
                  None \<Rightarrow> None
                | Some (Some err2, s2) \<Rightarrow> Some (Some err2, s2)
                | Some (None, s2) \<Rightarrow>
                    (case findEntry_dirCache svc parentPath s2 of
                       (Inl findErr, s3) \<Rightarrow> Some (Some findErr, s3)
                     | (Inr parentEntry, s3) \<Rightarrow>
                         Some (mkdir_create svc dirPath (ID parentEntry) s3)))
             else Some (mkdir_create svc dirPath 0 s1)))"
  by pat_completeness auto
termination
  by (relation "measure (\<lambda>x. case x of
                     Inl (fuel, svc, dir, s) \<Rightarrow> 2 * fuel
                   | Inr (fuel, svc, dirPath, s) \<Rightarrow> 2 * fuel + 1)") auto



text \<open>\<^verbatim>\<open>readMetadata\<close> and \<^verbatim>\<open>NewObject\<close> of the object file that goes with this variant.\<close>

definition readMetadata_dirCache ::
  "service \<Rightarrow> Object \<Rightarrow> Fs_dirCache \<Rightarrow> (error + Object) \<times> Fs_dirCache" where
  "readMetadata_dirCache svc obj s =
     (let remotePath = path_Join [root s, obj_remote obj];
          dirPath = path_Dir remotePath;
          fileName = path_Base remotePath
      in case (if dirPath \<noteq> [] \<and> dirPath \<noteq> ''.'' then
                 (case findEntry_dirCache svc dirPath s of
                    (Inl err, s1) \<Rightarrow> (Inl err, s1)
                  | (Inr parentEntry, s1) \<Rightarrow> (Inr (Some (ID parentEntry)), s1))
               else (Inr None, s)) of
           (Inl err, s1) \<Rightarrow> (Inl err, s1)
         | (Inr parentID, s1) \<Rightarrow>
             (case api_listEntries svc parentID s1 of
                (Inl err, s2) \<Rightarrow> (Inl err, s2)
              | (Inr entries, s2) \<Rightarrow>
                  (case find (\<lambda>e. Name e = fileName \<and> Type e \<noteq> ''folder'') entries of
                     Some e \<Rightarrow> (Inr (setMetadata obj e), s2)
                   | None \<Rightarrow> (Inl ErrorObjectNotFound, s2))))"

definition NewObject_dirCache ::
  "service \<Rightarrow> string \<Rightarrow> Fs_dirCache \<Rightarrow> (error + Object) \<times> Fs_dirCache" where
  "NewObject_dirCache svc remote s =
     readMetadata_dirCache svc \<lparr>obj_remote = remote, obj_id = 0, obj_size = 0, obj_modTime = 0\<rparr> s"

definition Move_dirCache ::
  "service \<Rightarrow> fs_Object \<Rightarrow> string \<Rightarrow> Fs_dirCache \<Rightarrow> (error + Object) \<times> Fs_dirCache" where
  "Move_dirCache svc src remote s =
     (case src of
        ForeignObject \<Rightarrow> (Inl ErrorCantMove, s)
      | DrimeObject srcObj \<Rightarrow>
          (let dstPath = path_Join [root s, remote];
               dstParentPath = path_Dir dstPath
           in case (if dstParentPath \<noteq> [] \<and> dstParentPath \<noteq> ''.'' then
                      (case findEntry_dirCache svc dstParentPath s of
                         (Inl err, s1) \<Rightarrow> (Inl err, s1)
                       | (Inr parentEntry, s1) \<Rightarrow> (Inr (ID parentEntry), s1))
                    else (Inr 0, s)) of
                (Inl err, s1) \<Rightarrow> (Inl err, s1)
              | (Inr dstParentID, s1) \<Rightarrow>
                  (case api_moveEntries svc [obj_id srcObj] dstParentID s1 of
                     (Some err, s2) \<Rightarrow> (Inl err, s2)
                   | (None, s2) \<Rightarrow>
                       (let dstName = path_Base dstPath in
                        case (if dstName \<noteq> path_Base (obj_remote srcObj) then
                                (case api_renameEntry svc (obj_id srcObj) dstName s2 of
                                   (Inl err, s3) \<Rightarrow> (Some err, s3)
                                 | (Inr renamed, s3) \<Rightarrow> (None, s3))
                              else (None, s2)) of
                          (Some err, s3) \<Rightarrow> (Inl err, s3)
                        | (None, s3) \<Rightarrow> NewObject_dirCache svc remote s3))))"

subsection \<open>Sessions of the dirCache variant\<close>


text \<open>
  The invariant of the path cache, and the one thing it asks of the service: what
  \<^verbatim>\<open>createFolder\<close> returns as a created folder is a folder.
\<close>

definition only_folders :: "Fs_dirCache \<Rightarrow> bool" where
  "only_folders s = (\<forall>p e. dirCache s p = Some e \<longrightarrow> Type e = ''folder'')"


subsection \<open>The pathCache variant\<close>

text \<open>
  The walk of \<^verbatim>\<open>findEntry\<close>: every part that is not empty costs one listing; the result
  is the last \<^verbatim>\<open>currentID\<close>.
\<close>

fun findEntry_pathCache_walk ::
  "service \<Rightarrow> string list \<Rightarrow> int option \<Rightarrow> Fs_pathCache \<Rightarrow> (error + int option) \<times> Fs_pathCache"
  where
  "findEntry_pathCache_walk svc [] currentID s = (Inr currentID, s)"
| "findEntry_pathCache_walk svc (part # rest) currentID s =
     (if part = [] then findEntry_pathCache_walk svc rest currentID s
      else
        (case api_listEntries svc currentID s of
           (Inl err, s1) \<Rightarrow> (Inl err, s1)
         | (Inr entries, s1) \<Rightarrow>
             (case find (\<lambda>e. Name e = part) entries of
                None \<Rightarrow> (Inl ErrorObjectNotFound, s1)
              | Some e \<Rightarrow>
                  findEntry_pathCache_walk svc rest (Some (ID e))
                    (s1\<lparr>entryCache := (entryCache s1)(ID e \<mapsto> e)\<rparr>))))"

definition findEntry_pathCache ::
  "service \<Rightarrow> string \<Rightarrow> Fs_pathCache \<Rightarrow> (error + FileEntry) \<times> Fs_pathCache" where
  "findEntry_pathCache svc remotePath s =
     (case (case pathCache s remotePath of
              Some i \<Rightarrow> entryCache s i
            | None \<Rightarrow> None) of
        Some entry \<Rightarrow> (Inr entry, s)
      | None \<Rightarrow>
          (case findEntry_pathCache_walk svc
                  (strings_Split (strings_Trim remotePath ''/'') (CHR ''/'')) (rootID s) s of
             (Inl err, s1) \<Rightarrow> (Inl err, s1)
           | (Inr None, s1) \<Rightarrow> (Inl ErrorObjectNotFound, s1)
           | (Inr (Some currentID), s1) \<Rightarrow>
               (case entryCache s1 currentID of
                  None \<Rightarrow> (Inl ErrorObjectNotFound, s1)
                | Some entry \<Rightarrow>
                    (Inr entry, s1\<lparr>pathCache := (pathCache s1)(remotePath \<mapsto> ID entry)\<rparr>))))"

definition readMetadata_pathCache ::
  "service \<Rightarrow> Object \<Rightarrow> Fs_pathCache \<Rightarrow> (error + Object) \<times> Fs_pathCache" where
  "readMetadata_pathCache svc obj s =
     (case findEntry_pathCache svc (path_Join [root s, obj_remote obj]) s of
        (Inl err, s1) \<Rightarrow> (Inl err, s1)
      | (Inr entry, s1) \<Rightarrow>
          if Type entry = ''folder'' then (Inl ErrorIsDir, s1)
          else (Inr (setMetadata obj entry), s1))"

definition NewObject_pathCache ::
  "service \<Rightarrow> string \<Rightarrow> Fs_pathCache \<Rightarrow> (error + Object) \<times> Fs_pathCache" where
  "NewObject_pathCache svc remote s =
     readMetadata_pathCache svc \<lparr>obj_remote = remote, obj_id = 0, obj_size = 0, obj_modTime = 0\<rparr> s"

definition Rmdir_pathCache ::
  "service \<Rightarrow> string \<Rightarrow> Fs_pathCache \<Rightarrow> error option \<times> Fs_pathCache" where
  "Rmdir_pathCache svc dir s =
     (let dirPath = path_Join [root s, dir] in
      case findEntry_pathCache svc dirPath s of
        (Inl err, s1) \<Rightarrow> (Some err, s1)
      | (Inr entry, s1) \<Rightarrow>
          if Type entry \<noteq> ''folder'' then (Some ErrorIsFile, s1)
          else
            (case api_listEntries svc (Some (ID entry)) s1 of
               (Inl err, s2) \<Rightarrow> (Some err, s2)
             | (Inr entries, s2) \<Rightarrow>
                 if length entries > 0 then (Some ErrorDirectoryNotEmpty, s2)
                 else
                   (case api_deleteEntries svc [ID entry] True s2 of
                      (Some err, s3) \<Rightarrow> (Some err, s3)
                    | (None, s3) \<Rightarrow>
                        (None, s3\<lparr>pathCache := (pathCache s3)(dirPath := None),
                                   entryCache := (entryCache s3)(ID entry := None)\<rparr>))))"

definition Purge_pathCache ::
  "service \<Rightarrow> string \<Rightarrow> Fs_pathCache \<Rightarrow> error option \<times> Fs_pathCache" where
  "Purge_pathCache svc dir s =
     (let dirPath = path_Join [root s, dir] in
      case findEntry_pathCache svc dirPath s of
        (Inl err, s1) \<Rightarrow> (Some err, s1)
      | (Inr entry, s1) \<Rightarrow>
          if Type entry \<noteq> ''folder'' then (Some ErrorIsFile, s1)
          else api_deleteEntries svc [ID entry] True s1)"

text \<open>\<^verbatim>\<open>Object.Remove\<close> of \<^verbatim>\<open>object.go\<close>.\<close>

definition Remove_pathCache ::
  "service \<Rightarrow> Object \<Rightarrow> Fs_pathCache \<Rightarrow> error option \<times> Fs_pathCache" where
  "Remove_pathCache svc obj s =
     (case api_deleteEntries svc [obj_id obj] True s of
        (Some err, s1) \<Rightarrow> (Some err, s1)
      | (None, s1) \<Rightarrow>
          (None, s1\<lparr>pathCache := (pathCache s1)(path_Join [root s1, obj_remote obj] := None),
                     entryCache := (entryCache s1)(obj_id obj := None)\<rparr>))"

definition Move_pathCache ::
  "service \<Rightarrow> fs_Object \<Rightarrow> string \<Rightarrow> Fs_pathCache \<Rightarrow> (error + Object) \<times> Fs_pathCache" where
  "Move_pathCache svc src remote s =
     (case src of
        ForeignObject \<Rightarrow> (Inl ErrorCantMove, s)
      | DrimeObject srcObj \<Rightarrow>
          (let dstPath = path_Join [root s, remote];
               dstParentPath = path_Dir dstPath
           in case (if dstParentPath \<noteq> [] \<and> dstParentPath \<noteq> ''.'' then
                      (case findEntry_pathCache svc dstParentPath s of
                         (Inl err, s1) \<Rightarrow> (Inl err, s1)
                       | (Inr parentEntry, s1) \<Rightarrow> (Inr (ID parentEntry), s1))
                    else (Inr 0, s)) of
                (Inl err, s1) \<Rightarrow> (Inl err, s1)
              | (Inr dstParentID, s1) \<Rightarrow>
                  (case api_moveEntries svc [obj_id srcObj] dstParentID s1 of
                     (Some err, s2) \<Rightarrow> (Inl err, s2)
                   | (None, s2) \<Rightarrow>
                       (let dstName = path_Base dstPath in
                        case (if dstName \<noteq> obj_remote srcObj then
                                (case api_renameEntry svc (obj_id srcObj) dstName s2 of
                                   (Inl err, s3) \<Rightarrow> (Some err, s3)
                                 | (Inr renamed, s3) \<Rightarrow> (None, s3))
                              else (None, s2)) of
                          (Some err, s3) \<Rightarrow> (Inl err, s3)
                        | (None, s3) \<Rightarrow> NewObject_pathCache svc remote s3))))"

section \<open>Example inputs\<close>

text \<open>A service that holds 107 entries of a folder on three pages of 50, 50 and 7.\<close>

definition three_pages :: "int option \<Rightarrow> int \<Rightarrow> error + ListEntriesResponse" where
  "three_pages parentID p =
     Inr \<lparr>Data = replicate (if p = 3 then 7 else 50) (zero_FileEntry\<lparr>ID := p, ParentID := parentID\<rparr>),
          CurrentPage = p, LastPage = 3\<rparr>"

text \<open>
  A parent folder (id 5) for \<^verbatim>\<open>createFolder\<close>: a folder and a non-folder entry that are
  both called \<^verbatim>\<open>docs\<close>; a listing that shows both; a listing in which the folder only
  appears from the third call on; and a creation request that is always answered with 422.
\<close>

definition ex_docs :: FileEntry where
  "ex_docs = zero_FileEntry\<lparr>ID := 11, Name := ''docs'', Type := ''folder'', ParentID := Some 5\<rparr>"

definition ex_notes :: FileEntry where
  "ex_notes = zero_FileEntry\<lparr>ID := 12, Name := ''docs'', Type := ''text'', ParentID := Some 5\<rparr>"

definition ls_present :: "nat \<Rightarrow> int option \<Rightarrow> error + FileEntry list" where
  "ls_present k parent = Inr [ex_notes, ex_docs]"

definition ls_late :: "nat \<Rightarrow> int option \<Rightarrow> error + FileEntry list" where
  "ls_late k parent = (if k < 2 then Inr [ex_notes] else Inr [ex_notes, ex_docs])"

definition post_422 :: "nat \<Rightarrow> attempt" where
  "post_422 k =
     \<lparr>a_resp = Some \<lparr>StatusCode = 422\<rparr>, a_err = Some (RemoteError ''422 Unprocessable''),
      a_folder = zero_FileEntry\<rparr>"

text \<open>
  A session on an account with two folders \<^verbatim>\<open>A\<close> (id 1) and \<^verbatim>\<open>B\<close> (id 2) and a file
  \<^verbatim>\<open>x.txt\<close> (id 7) in \<^verbatim>\<open>A\<close>. The fourth call of the session (number 3) is the move
  request; from then on the service lists the file in \<^verbatim>\<open>B\<close> and no longer in \<^verbatim>\<open>A\<close>.
  \<open>move_s1\<close> is the session after the object for \<^verbatim>\<open>A/x.txt\<close> has been looked up,
  \<open>move_s2\<close> the session after that object has been moved to \<^verbatim>\<open>B/x.txt\<close>.
\<close>

definition ex_A :: FileEntry where
  "ex_A = zero_FileEntry\<lparr>ID := 1, Name := ''A'', Type := ''folder''\<rparr>"

definition ex_B :: FileEntry where
  "ex_B = zero_FileEntry\<lparr>ID := 2, Name := ''B'', Type := ''folder''\<rparr>"

definition ex_x_in_A :: FileEntry where
  "ex_x_in_A = zero_FileEntry\<lparr>ID := 7, Name := ''x.txt'', Type := ''text'', FileSize := 3,
                               ParentID := Some 1\<rparr>"

definition ex_x_in_B :: FileEntry where
  "ex_x_in_B = ex_x_in_A\<lparr>ParentID := Some 2\<rparr>"

definition move_service :: service where
  "move_service =
     \<lparr>on_listEntries = (\<lambda>t parent.
          if parent = None then Inr [ex_A, ex_B]
          else if parent = Some 1 then (if t \<le> 3 then Inr [ex_x_in_A] else Inr [])
          else if parent = Some 2 then (if t \<le> 3 then Inr [] else Inr [ex_x_in_B])
          else Inr []),
      on_createFolder = (\<lambda>t name parent. Inl (RemoteError ''not used'')),
      on_deleteEntries = (\<lambda>t ids permanent. None),
      on_renameEntry = (\<lambda>t i newName. Inr ex_x_in_B),
      on_moveEntries = (\<lambda>t ids destination. None)\<rparr>"

definition ex_obj :: Object where
  "ex_obj = \<lparr>obj_remote = ''A/x.txt'', obj_id = 7, obj_size = 3, obj_modTime = 0\<rparr>"

definition move_s1 :: Fs_pathCache where
  "move_s1 = snd (NewObject_pathCache move_service ''A/x.txt'' (NewFs_pathCache []))"

definition move_s2 :: Fs_pathCache where
  "move_s2 = snd (Move_pathCache move_service
                    (DrimeObject ex_obj)
                    ''B/x.txt'' move_s1)"

text \<open>A session of the pathCache variant whose \<^verbatim>\<open>rootID\<close> is set and cached.\<close>

definition cached_root_Fs :: Fs_pathCache where
  "cached_root_Fs = (NewFs_pathCache [])\<lparr>rootID := Some 1, entryCache := [1 \<mapsto> ex_A]\<rparr>"




text \<open>A service that cannot be reached.\<close>

definition down_service :: service where
  "down_service =
     \<lparr>on_listEntries = (\<lambda>t parent. Inl (RemoteError ''connection refused'')),
      on_createFolder = (\<lambda>t name parent. Inl (RemoteError ''connection refused'')),
      on_deleteEntries = (\<lambda>t ids permanent. Some (RemoteError ''connection refused'')),
      on_renameEntry = (\<lambda>t i newName. Inl (RemoteError ''connection refused'')),
      on_moveEntries = (\<lambda>t ids destination. Some (RemoteError ''connection refused''))\<rparr>"

section \<open>Properties\<close>

subsection \<open>Library functions\<close>

lemma strings_HasPrefix_prefix: "strings_HasPrefix s p = prefix p s"
  unfolding strings_HasPrefix_def prefix_def
  by (metis append_eq_conv_conj append_take_drop_id length_append le_add1)

lemma strings_TrimPrefix_slash:
  "strings_TrimPrefix s ''/'' = (case s of [] \<Rightarrow> [] | c # r \<Rightarrow> if c = CHR ''/'' then r else s)"
  by (cases s) (auto simp: strings_TrimPrefix_def strings_HasPrefix_def)

subsection \<open>Retry classification\<close>

lemma shouldRetry_error_cancelled:
  "shouldRetry (Some c) resp (Some e) = (False, Some e)"
  by (simp add: shouldRetry_def)

lemma shouldRetry_error_live:
  "shouldRetry None resp (Some e) = (True, Some e)"
  by (simp add: shouldRetry_def)

lemma shouldRetry_status_no_error:
  "shouldRetry c (Some r) None =
     (StatusCode r = 429 \<or> StatusCode r \<ge> 500, None)"
  by (simp add: shouldRetry_def)

lemma shouldRetry_no_response_no_error:
  "shouldRetry c None None = (False, None)"
  by (simp add: shouldRetry_def)

text \<open>
  C6. The classifier is meant never to retry 401, 403, 404 and 422. An attempt that ends
  with status 404 reaches the classifier together with the error made from that status, and
  the error branch is taken before any status is looked at: with a live context the
  classifier answers "retry".
\<close>

theorem shouldRetry_404_with_error_is_retried:
  "shouldRetry None (Some \<lparr>StatusCode = 404\<rparr>) (Some (RemoteError ''404 Not Found''))
     = (True, Some (RemoteError ''404 Not Found''))"
  by (simp add: shouldRetry_def)

subsection \<open>The retry loop\<close>

text \<open>
  What the classifier means for the loop around it: a 503 followed by a success is two
  attempts and no error; a 404 that comes with its error is tried again until the retries
  are used up; a 404 without an error is one attempt, and no error is returned; an error
  under a cancelled context is one attempt.
\<close>

lemma pacer_Call_503_then_success:
  assumes "fn 0 = shouldRetry None (Some \<lparr>StatusCode = 503\<rparr>) e0"
    and "fn 1 = shouldRetry None (Some \<lparr>StatusCode = 200\<rparr>) None"
  shows "pacer_Call (Suc retries) fn 0 = (2, None)"
proof -
  have r0: "fst (fn 0)" using assms(1) by (cases e0) (simp_all add: shouldRetry_def)
  have r1: "fn (Suc 0) = (False, None)" using assms(2) by (simp add: shouldRetry_def)
  show ?thesis using r0 r1 by (cases retries) simp_all
qed

lemma pacer_Call_always_retry:
  "(\<forall>k. fn k = (True, e)) \<Longrightarrow> pacer_Call retries fn k0 = (Suc (k0 + retries), e)"
  by (induction retries arbitrary: k0) simp_all

lemma pacer_Call_404_with_error:
  "pacer_Call retries (\<lambda>k. shouldRetry None (Some \<lparr>StatusCode = 404\<rparr>) (Some e)) 0
     = (Suc retries, Some e)"
  using pacer_Call_always_retry [of "\<lambda>k. shouldRetry None (Some \<lparr>StatusCode = 404\<rparr>) (Some e)"
      "Some e" retries 0]
  by (simp add: shouldRetry_def)

lemma pacer_Call_404_without_error:
  "pacer_Call retries (\<lambda>k. shouldRetry c (Some \<lparr>StatusCode = 404\<rparr>) None) 0 = (1, None)"
  by (cases retries) (simp_all add: shouldRetry_def)

lemma pacer_Call_cancelled:
  "pacer_Call retries (\<lambda>k. shouldRetry (Some ContextCanceled) r (Some e)) 0 = (1, Some e)"
  by (cases retries) (simp_all add: shouldRetry_def)

subsection \<open>Pagination\<close>

lemma api_loop_pages:
  assumes "a \<le> n"
    and "\<forall>p. a \<le> p \<and> p \<le> n \<longrightarrow>
           (\<exists>r. srv pid p = Inr r \<and> Data r = pages p \<and> (LastPage r \<le> CurrentPage r \<longleftrightarrow> p = n))"
  shows "listEntries_api_loop srv pid a acc reqs =
           Some (Inr (acc @ concat (map pages [a..n])), reqs @ [a..n])"
  using assms
proof (induction "nat (n - a)" arbitrary: a acc reqs)
  case 0
  then have an: "a = n" by simp
  from 0(3) an obtain r where r: "srv pid n = Inr r" "Data r = pages n" "LastPage r \<le> CurrentPage r"
    by auto
  show ?case unfolding an
    by (subst listEntries_api_loop.simps) (simp add: r)
next
  case (Suc k)
  then have lt: "a < n" by simp
  from Suc(4) lt obtain r where r: "srv pid a = Inr r" "Data r = pages a" "\<not> LastPage r \<le> CurrentPage r"
    by (metis order_refl less_imp_le less_irrefl)
  have k: "k = nat (n - (a + 1))" using Suc(2) by simp
  have rest: "\<forall>p. a + 1 \<le> p \<and> p \<le> n \<longrightarrow>
           (\<exists>r. srv pid p = Inr r \<and> Data r = pages p \<and> (LastPage r \<le> CurrentPage r \<longleftrightarrow> p = n))"
    using Suc(4) by auto
  have ih: "listEntries_api_loop srv pid (a + 1) (acc @ pages a) (reqs @ [a]) =
           Some (Inr ((acc @ pages a) @ concat (map pages [a + 1..n])), (reqs @ [a]) @ [a + 1..n])"
    using Suc(1) [OF k _ rest] lt by simp
  have up: "[a..n] = a # [a + 1..n]" using lt by (simp add: upto_rec1)
  show ?case
    by (subst listEntries_api_loop.simps) (simp add: r ih up)
qed

lemma counter_loop_pages:
  assumes "a \<le> n"
    and "\<forall>p. a \<le> p \<and> p \<le> n \<longrightarrow>
           (\<exists>r. srv pid p = Inr r \<and> Data r = pages p \<and> (LastPage r \<le> p \<longleftrightarrow> p = n))"
  shows "listEntries_counter_loop srv pid a acc reqs =
           Some (Inr (acc @ concat (map pages [a..n])), reqs @ [a..n])"
  using assms
proof (induction "nat (n - a)" arbitrary: a acc reqs)
  case 0
  then have an: "a = n" by simp
  from 0(3) an obtain r where r: "srv pid n = Inr r" "Data r = pages n" "LastPage r \<le> n"
    by auto
  show ?case unfolding an
    by (subst listEntries_counter_loop.simps) (simp add: r)
next
  case (Suc k)
  then have lt: "a < n" by simp
  from Suc(4) lt obtain r where r: "srv pid a = Inr r" "Data r = pages a" "\<not> LastPage r \<le> a"
    by (metis order_refl less_imp_le less_irrefl)
  have k: "k = nat (n - (a + 1))" using Suc(2) by simp
  have rest: "\<forall>p. a + 1 \<le> p \<and> p \<le> n \<longrightarrow>
           (\<exists>r. srv pid p = Inr r \<and> Data r = pages p \<and> (LastPage r \<le> p \<longleftrightarrow> p = n))"
    using Suc(4) by auto
  have ih: "listEntries_counter_loop srv pid (a + 1) (acc @ pages a) (reqs @ [a]) =
           Some (Inr ((acc @ pages a) @ concat (map pages [a + 1..n])), (reqs @ [a]) @ [a + 1..n])"
    using Suc(1) [OF k _ rest] lt by simp
  have up: "[a..n] = a # [a + 1..n]" using lt by (simp add: upto_rec1)
  show ?case
    by (subst listEntries_counter_loop.simps) (simp add: r ih up)
qed

lemma upto_1_3: "[1..3::int] = [1, 2, 3]"
  by (simp add: upto_rec1)

text \<open>
  C7. For every parent, \<^verbatim>\<open>listEntries\<close> asks for page 1, 2, ... and appends each page's
  items until the first page that says it is the last (current page not below last page; the
  second revision compares its own page counter): if that is page \<open>n\<close>, it returns pages
  1 to \<open>n\<close> concatenated in that order after exactly the requests 1 to \<open>n\<close>. With
  three pages of 50, 50 and 7 entries and last page 3 it returns all 107 entries after
  exactly the requests 1, 2, 3.
\<close>

theorem listEntries_follows_pagination:
  "(1 \<le> n \<and>
    (\<forall>p. 1 \<le> p \<and> p \<le> n \<longrightarrow>
       (\<exists>r. srv parentID p = Inr r \<and> Data r = pages p \<and> (LastPage r \<le> CurrentPage r \<longleftrightarrow> p = n)))
    \<longrightarrow> listEntries_api srv parentID = Some (Inr (concat (map pages [1..n])), [1..n])) \<and>
   (1 \<le> n \<and>
    (\<forall>p. 1 \<le> p \<and> p \<le> n \<longrightarrow>
       (\<exists>r. srv parentID p = Inr r \<and> Data r = pages p \<and> (LastPage r \<le> p \<longleftrightarrow> p = n)))
    \<longrightarrow> listEntries_counter srv parentID = Some (Inr (concat (map pages [1..n])), [1..n])) \<and>
   ((\<forall>p. 1 \<le> p \<and> p \<le> 3 \<longrightarrow>
        srv parentID p = Inr \<lparr>Data = pages p, CurrentPage = p, LastPage = 3\<rparr>) \<and>
    length (pages 1) = 50 \<and> length (pages 2) = 50 \<and> length (pages 3) = 7
    \<longrightarrow> listEntries_api srv parentID = Some (Inr (pages 1 @ pages 2 @ pages 3), [1, 2, 3]) \<and>
        listEntries_counter srv parentID = Some (Inr (pages 1 @ pages 2 @ pages 3), [1, 2, 3]) \<and>
        length (pages 1 @ pages 2 @ pages 3) = 107)"
proof (intro conjI impI)
  assume h: "1 \<le> n \<and>
    (\<forall>p. 1 \<le> p \<and> p \<le> n \<longrightarrow>
       (\<exists>r. srv parentID p = Inr r \<and> Data r = pages p \<and> (LastPage r \<le> CurrentPage r \<longleftrightarrow> p = n)))"
  show "listEntries_api srv parentID = Some (Inr (concat (map pages [1..n])), [1..n])"
    unfolding listEntries_api_def using api_loop_pages [of 1 n srv parentID pages "[]" "[]"] h
    by simp
next
  assume h: "1 \<le> n \<and>
    (\<forall>p. 1 \<le> p \<and> p \<le> n \<longrightarrow>
       (\<exists>r. srv parentID p = Inr r \<and> Data r = pages p \<and> (LastPage r \<le> p \<longleftrightarrow> p = n)))"
  show "listEntries_counter srv parentID = Some (Inr (concat (map pages [1..n])), [1..n])"
    unfolding listEntries_counter_def using counter_loop_pages [of 1 n srv parentID pages "[]" "[]"] h
    by simp
next
  assume h: "(\<forall>p. 1 \<le> p \<and> p \<le> 3 \<longrightarrow>
        srv parentID p = Inr \<lparr>Data = pages p, CurrentPage = p, LastPage = 3\<rparr>) \<and>
    length (pages 1) = 50 \<and> length (pages 2) = 50 \<and> length (pages 3) = 7"
  then have a: "\<forall>p. 1 \<le> p \<and> p \<le> 3 \<longrightarrow>
       (\<exists>r. srv parentID p = Inr r \<and> Data r = pages p \<and> (LastPage r \<le> CurrentPage r \<longleftrightarrow> p = 3))"
    by auto
  show "listEntries_api srv parentID = Some (Inr (pages 1 @ pages 2 @ pages 3), [1, 2, 3])"
    unfolding listEntries_api_def using api_loop_pages [of 1 3 srv parentID pages "[]" "[]"] a
    by (simp add: upto_1_3)
next
  assume h: "(\<forall>p. 1 \<le> p \<and> p \<le> 3 \<longrightarrow>
        srv parentID p = Inr \<lparr>Data = pages p, CurrentPage = p, LastPage = 3\<rparr>) \<and>
    length (pages 1) = 50 \<and> length (pages 2) = 50 \<and> length (pages 3) = 7"
  then have a: "\<forall>p. 1 \<le> p \<and> p \<le> 3 \<longrightarrow>
       (\<exists>r. srv parentID p = Inr r \<and> Data r = pages p \<and> (LastPage r \<le> p \<longleftrightarrow> p = 3))"
    by auto
  show "listEntries_counter srv parentID = Some (Inr (pages 1 @ pages 2 @ pages 3), [1, 2, 3])"
    unfolding listEntries_counter_def using counter_loop_pages [of 1 3 srv parentID pages "[]" "[]"] a
    by (simp add: upto_1_3)
next
  assume h: "(\<forall>p. 1 \<le> p \<and> p \<le> 3 \<longrightarrow>
        srv parentID p = Inr \<lparr>Data = pages p, CurrentPage = p, LastPage = 3\<rparr>) \<and>
    length (pages 1) = 50 \<and> length (pages 2) = 50 \<and> length (pages 3) = 7"
  then show "length (pages 1 @ pages 2 @ pages 3) = 107" by simp
qed

theorem listEntries_follows_pagination_witness:
  "listEntries_api three_pages (Some 9) =
     Some (Inr (replicate 50 (zero_FileEntry\<lparr>ID := 1, ParentID := Some 9\<rparr>) @
                replicate 50 (zero_FileEntry\<lparr>ID := 2, ParentID := Some 9\<rparr>) @
                replicate 7 (zero_FileEntry\<lparr>ID := 3, ParentID := Some 9\<rparr>)), [1, 2, 3]) \<and>
   listEntries_counter three_pages (Some 9) =
     Some (Inr (replicate 50 (zero_FileEntry\<lparr>ID := 1, ParentID := Some 9\<rparr>) @
                replicate 50 (zero_FileEntry\<lparr>ID := 2, ParentID := Some 9\<rparr>) @
                replicate 7 (zero_FileEntry\<lparr>ID := 3, ParentID := Some 9\<rparr>)), [1, 2, 3])"
  using listEntries_follows_pagination [of 3 three_pages "Some 9"
      "\<lambda>p. replicate (if p = 3 then 7 else 50) (zero_FileEntry\<lparr>ID := p, ParentID := Some 9\<rparr>)"]
  by (simp add: three_pages_def upto_1_3)

subsection \<open>createFolder\<close>

lemma pacer_Call_attempts_pos: "0 < fst (pacer_Call retries fn k)"
  by (induction retries arbitrary: k) auto

lemma pacer_Call_stops:
  "k \<le> retries \<Longrightarrow> (\<forall>j<k. fst (fn (i + j))) \<Longrightarrow> \<not> fst (fn (i + k)) \<Longrightarrow>
   pacer_Call retries fn i = (Suc (i + k), snd (fn (i + k)))"
proof (induction retries arbitrary: i k)
  case 0
  then show ?case by simp
next
  case (Suc r)
  show ?case
  proof (cases k)
    case 0
    with Suc.prems show ?thesis by simp
  next
    case (Suc k')
    have a: "fst (fn i)" using Suc.prems(2) Suc by force
    have b: "\<forall>j<k'. fst (fn (Suc i + j))" using Suc.prems(2) Suc by force
    have c: "\<not> fst (fn (Suc i + k'))" using Suc.prems(3) Suc by simp
    have d: "k' \<le> r" using Suc.prems(1) Suc by simp
    show ?thesis using Suc.IH [OF d b c] a Suc by simp
  qed
qed

lemma createFolder_fn_422:
  "a_resp (post k) = Some r \<Longrightarrow> StatusCode r = 422 \<Longrightarrow>
   createFolder_fn ctx_Err post k = (False, a_err (post k))"
  by (simp add: createFolder_fn_def)

lemma find_after_422_unrolled:
  "find_after_422 ls cp name 0 evs =
     (case find_folder name (ls 1 cp) of
        Some f \<Rightarrow> (Some f, evs @ [EvList cp])
      | None \<Rightarrow>
          (case find_folder name (ls 2 cp) of
             Some f \<Rightarrow> (Some f, evs @ [EvList cp, EvSleep 500, EvList cp])
           | None \<Rightarrow>
               (case find_folder name (ls 3 cp) of
                  Some f \<Rightarrow>
                    (Some f, evs @ [EvList cp, EvSleep 500, EvList cp, EvSleep 500, EvList cp])
                | None \<Rightarrow>
                    (None, evs @ [EvList cp, EvSleep 500, EvList cp, EvSleep 500, EvList cp]))))"
proof -
  have s3: "find_after_422 ls cp name (Suc (Suc (Suc 0))) e = (None, e)" for e
    by (subst find_after_422.simps) simp
  have s2: "find_after_422 ls cp name (Suc (Suc 0)) e =
      (case find_folder name (ls (Suc (Suc (Suc 0))) cp) of
         Some f \<Rightarrow> (Some f, e @ [EvSleep 500, EvList cp])
       | None \<Rightarrow> (None, e @ [EvSleep 500, EvList cp]))" for e
    by (subst find_after_422.simps) (simp add: s3 split: option.splits)
  have s1: "find_after_422 ls cp name (Suc 0) e =
      (case find_folder name (ls (Suc (Suc 0)) cp) of
         Some f \<Rightarrow> (Some f, e @ [EvSleep 500, EvList cp])
       | None \<Rightarrow> find_after_422 ls cp name (Suc (Suc 0)) (e @ [EvSleep 500, EvList cp]))" for e
    by (subst find_after_422.simps) (simp split: option.splits)
  have s0: "find_after_422 ls cp name 0 e =
      (case find_folder name (ls (Suc 0) cp) of
         Some f \<Rightarrow> (Some f, e @ [EvList cp])
       | None \<Rightarrow> find_after_422 ls cp name (Suc 0) (e @ [EvList cp]))" for e
    by (subst find_after_422.simps) (simp split: option.splits)
  show ?thesis
    by (simp add: s0 s1 s2 numeral_2_eq_2 numeral_3_eq_3 split: option.splits)
qed

lemma find_after_422_extends:
  "set evs \<subseteq> set (snd (find_after_422 ls cp name a evs))"
proof (induction ls cp name a evs rule: find_after_422.induct)
  case (1 ls cp name a evs)
  show ?case
  proof (cases "a < 3")
    case False
    then show ?thesis by (subst find_after_422.simps) simp
  next
    case True
    show ?thesis
    proof (cases "find_folder name (ls (Suc a) cp)")
      case (Some f)
      with True show ?thesis by (subst find_after_422.simps) (auto simp: Let_def)
    next
      case None
      from "1.IH" [OF True refl refl None] True None show ?thesis
        by (subst find_after_422.simps) (auto simp: Let_def)
    qed
  qed
qed

lemma createFolder_reconcile_post:
  "EvPost \<in> set (snd (createFolder_reconcile ctx_Err retries ls post name parentID))
    \<longleftrightarrow> find_folder name (ls 0 (if parentID = 0 then None else Some parentID)) = None"
proof -
  define cp where "cp = (if parentID = 0 then None else Some parentID)"
  obtain n err where pc: "pacer_Call retries (createFolder_fn ctx_Err post) 0 = (n, err)"
    by (cases "pacer_Call retries (createFolder_fn ctx_Err post) 0")
  have pos: "0 < n"
    using pacer_Call_attempts_pos [of retries "createFolder_fn ctx_Err post" 0] pc by simp
  then have base: "EvPost \<in> set (EvList cp # replicate n EvPost)" by simp
  obtain found evs' where fa:
    "find_after_422 ls cp name 0 (EvList cp # replicate n EvPost) = (found, evs')"
    by (cases "find_after_422 ls cp name 0 (EvList cp # replicate n EvPost)")
  have ext: "EvPost \<in> set evs'"
    using find_after_422_extends [of "EvList cp # replicate n EvPost" ls cp name 0] base fa
    by auto
  show ?thesis
  proof (cases "find_folder name (ls 0 cp)")
    case (Some f)
    then show ?thesis
      by (simp add: createFolder_reconcile_def cp_def [symmetric])
  next
    case None
    then show ?thesis
      using base ext fa pc
      by (simp add: createFolder_reconcile_def cp_def [symmetric] Let_def
          split: option.splits)
  qed
qed

text \<open>
  C9. In both revisions of \<^verbatim>\<open>createFolder\<close>: when the listing of the parent succeeds
  and holds a folder of the wanted name, the first such entry is returned as success and the
  listing is the only thing that happened; and a creation request is sent exactly when that
  first listing failed or showed no folder of that name.
\<close>

theorem createFolder_returns_existing_folder:
  "(ls 0 (Some parentID) = Inr entries \<and>
    find (\<lambda>x. Name x = name \<and> Type x = ''folder'') entries = Some f
    \<longrightarrow> createFolder_api ctx_Err retries ls post name parentID = (Inr f, [EvList (Some parentID)])) \<and>
   (EvPost \<in> set (snd (createFolder_api ctx_Err retries ls post name parentID))
    \<longleftrightarrow> (\<forall>entries. ls 0 (Some parentID) = Inr entries \<longrightarrow>
           find (\<lambda>x. Name x = name \<and> Type x = ''folder'') entries = None)) \<and>
   (ls 0 (if parentID = 0 then None else Some parentID) = Inr entries \<and>
    find (\<lambda>x. Name x = name \<and> Type x = ''folder'') entries = Some f
    \<longrightarrow> createFolder_reconcile ctx_Err retries ls post name parentID
          = (Inr f, [EvList (if parentID = 0 then None else Some parentID)])) \<and>
   (EvPost \<in> set (snd (createFolder_reconcile ctx_Err retries ls post name parentID))
    \<longleftrightarrow> (\<forall>entries. ls 0 (if parentID = 0 then None else Some parentID) = Inr entries \<longrightarrow>
           find (\<lambda>x. Name x = name \<and> Type x = ''folder'') entries = None))"
proof -
  have pos: "0 < fst (pacer_Call retries (createFolder_fn ctx_Err post) 0)"
    by (rule pacer_Call_attempts_pos)
  have ff: "find_folder name r = None \<longleftrightarrow>
      (\<forall>entries. r = Inr entries \<longrightarrow> find (\<lambda>x. Name x = name \<and> Type x = ''folder'') entries = None)"
    for r
    by (cases r) (auto simp: find_folder_def)
  have a1: "ls 0 (Some parentID) = Inr entries \<and>
    find (\<lambda>x. Name x = name \<and> Type x = ''folder'') entries = Some f
    \<longrightarrow> createFolder_api ctx_Err retries ls post name parentID = (Inr f, [EvList (Some parentID)])"
    by (simp add: createFolder_api_def find_folder_def)
  have a2: "EvPost \<in> set (snd (createFolder_api ctx_Err retries ls post name parentID))
    \<longleftrightarrow> find_folder name (ls 0 (Some parentID)) = None"
    using pos by (auto simp: createFolder_api_def split: option.splits prod.splits)
  have b1: "ls 0 (if parentID = 0 then None else Some parentID) = Inr entries \<and>
    find (\<lambda>x. Name x = name \<and> Type x = ''folder'') entries = Some f
    \<longrightarrow> createFolder_reconcile ctx_Err retries ls post name parentID
          = (Inr f, [EvList (if parentID = 0 then None else Some parentID)])"
    by (simp add: createFolder_reconcile_def find_folder_def)
  show ?thesis
    using a1 a2 b1 createFolder_reconcile_post [of ctx_Err retries ls post name parentID]
    unfolding ff by blast
qed

text \<open>
  C5, as amended. Let the creation request end with status 422 and an error on attempt
  \<open>k\<close> (earlier attempts having been retried), after a pre-check that found nothing. The
  request is then not sent again. The revision with the reconciliation lists the parent
  again at most three times, sleeping 500 ms before the second and the third listing,
  returns the first folder of that name it sees, and otherwise returns the failure of the
  creation request, wrapped. The revision in \<^verbatim>\<open>api.go\<close> has no reconciliation: it
  returns the wrapped failure at once, without listing again.
\<close>

theorem createFolder_422_reconciliation:
  assumes "k \<le> retries"
    and "\<forall>j<k. fst (createFolder_fn ctx_Err post j)"
    and "a_resp (post k) = Some r" and "StatusCode r = 422" and "a_err (post k) = Some e"
  shows
    "(let cp = (if parentID = 0 then None else Some parentID);
          posts = EvList cp # replicate (Suc k) EvPost;
          failure = Inl (Wrapped ''create folder failed'' e)
      in find_folder name (ls 0 cp) = None \<longrightarrow>
         createFolder_reconcile ctx_Err retries ls post name parentID =
           (case find_folder name (ls 1 cp) of
              Some f \<Rightarrow> (Inr f, posts @ [EvList cp])
            | None \<Rightarrow>
                (case find_folder name (ls 2 cp) of
                   Some f \<Rightarrow> (Inr f, posts @ [EvList cp, EvSleep 500, EvList cp])
                 | None \<Rightarrow>
                     (case find_folder name (ls 3 cp) of
                        Some f \<Rightarrow>
                          (Inr f, posts @ [EvList cp, EvSleep 500, EvList cp, EvSleep 500, EvList cp])
                      | None \<Rightarrow>
                          (failure,
                           posts @ [EvList cp, EvSleep 500, EvList cp, EvSleep 500, EvList cp]))))) \<and>
     (find_folder name (ls 0 (Some parentID)) = None \<longrightarrow>
        createFolder_api ctx_Err retries ls post name parentID =
          (Inl (Wrapped ''create folder failed'' e),
           EvList (Some parentID) # replicate (Suc k) EvPost))"
proof -
  have fnk: "createFolder_fn ctx_Err post k = (False, Some e)"
    using createFolder_fn_422 [of post k r ctx_Err] assms(3,4,5) by simp
  have pc: "pacer_Call retries (createFolder_fn ctx_Err post) 0 = (Suc k, Some e)"
    using pacer_Call_stops [of k retries "createFolder_fn ctx_Err post" 0] assms(1,2) fnk
    by simp
  have rec: "find_folder name (ls 0 cp) = None \<Longrightarrow>
      cp = (if parentID = 0 then None else Some parentID) \<Longrightarrow>
      createFolder_reconcile ctx_Err retries ls post name parentID =
        (case find_after_422 ls cp name 0 (EvList cp # replicate (Suc k) EvPost) of
           (Some found, evs') \<Rightarrow> (Inr found, evs')
         | (None, evs') \<Rightarrow> (Inl (Wrapped ''create folder failed'' e), evs'))" for cp
    using pc assms(3,4) by (simp add: createFolder_reconcile_def Let_def)
  have api: "find_folder name (ls 0 (Some parentID)) = None \<Longrightarrow>
      createFolder_api ctx_Err retries ls post name parentID =
        (Inl (Wrapped ''create folder failed'' e), EvList (Some parentID) # replicate (Suc k) EvPost)"
    using pc by (simp add: createFolder_api_def)
  show ?thesis
    unfolding Let_def
  proof (intro conjI impI)
    assume "find_folder name (ls 0 (if parentID = 0 then None else Some parentID)) = None"
    from rec [OF this refl] show "createFolder_reconcile ctx_Err retries ls post name parentID =
       (case find_folder name (ls 1 (if parentID = 0 then None else Some parentID)) of
          None \<Rightarrow>
            (case find_folder name (ls 2 (if parentID = 0 then None else Some parentID)) of
               None \<Rightarrow>
                 (case find_folder name (ls 3 (if parentID = 0 then None else Some parentID)) of
                    None \<Rightarrow>
                      (Inl (Wrapped ''create folder failed'' e),
                       (EvList (if parentID = 0 then None else Some parentID) # replicate (Suc k) EvPost) @
                       [EvList (if parentID = 0 then None else Some parentID), EvSleep 500,
                        EvList (if parentID = 0 then None else Some parentID), EvSleep 500,
                        EvList (if parentID = 0 then None else Some parentID)])
                  | Some f \<Rightarrow>
                      (Inr f,
                       (EvList (if parentID = 0 then None else Some parentID) # replicate (Suc k) EvPost) @
                       [EvList (if parentID = 0 then None else Some parentID), EvSleep 500,
                        EvList (if parentID = 0 then None else Some parentID), EvSleep 500,
                        EvList (if parentID = 0 then None else Some parentID)]))
             | Some f \<Rightarrow>
                 (Inr f,
                  (EvList (if parentID = 0 then None else Some parentID) # replicate (Suc k) EvPost) @
                  [EvList (if parentID = 0 then None else Some parentID), EvSleep 500,
                   EvList (if parentID = 0 then None else Some parentID)]))
        | Some f \<Rightarrow>
            (Inr f,
             (EvList (if parentID = 0 then None else Some parentID) # replicate (Suc k) EvPost) @
             [EvList (if parentID = 0 then None else Some parentID)]))"
      by (simp add: find_after_422_unrolled split: option.splits)
  next
    assume "find_folder name (ls 0 (Some parentID)) = None"
    from api [OF this] show "createFolder_api ctx_Err retries ls post name parentID =
      (Inl (Wrapped ''create folder failed'' e), EvList (Some parentID) # replicate (Suc k) EvPost)" .
  qed
qed

theorem createFolder_422_reconciliation_witness:
  "createFolder_reconcile None 3 ls_late post_422 ''docs'' 5 =
     (Inr ex_docs, [EvList (Some 5), EvPost, EvList (Some 5), EvSleep 500, EvList (Some 5)]) \<and>
   createFolder_api None 3 ls_late post_422 ''docs'' 5 =
     (Inl (Wrapped ''create folder failed'' (RemoteError ''422 Unprocessable'')),
      [EvList (Some 5), EvPost])"
  using createFolder_422_reconciliation [of 0 3 None post_422 "\<lparr>StatusCode = 422\<rparr>"
      "RemoteError ''422 Unprocessable''" 5 "''docs''" ls_late]
  by (simp add: post_422_def ls_late_def find_folder_def ex_docs_def ex_notes_def
      zero_FileEntry_def Let_def)

text \<open>
  The claim C5 as it was stated fails for \<^verbatim>\<open>createFolder\<close> of \<^verbatim>\<open>api.go\<close>: after the
  422 it returns the failure although every later listing would show the folder, and the
  only listing it made is the pre-check.
\<close>

theorem createFolder_api_does_not_relist:
  "createFolder_api None 3 ls_late post_422 ''docs'' 5 =
     (Inl (Wrapped ''create folder failed'' (RemoteError ''422 Unprocessable'')),
      [EvList (Some 5), EvPost])"
  by (simp add: createFolder_api_def createFolder_fn_def post_422_def ls_late_def
      find_folder_def ex_docs_def ex_notes_def zero_FileEntry_def numeral_3_eq_3)

theorem createFolder_returns_existing_folder_witness:
  "createFolder_api None 3 ls_present post_422 ''docs'' 5 = (Inr ex_docs, [EvList (Some 5)]) \<and>
   createFolder_reconcile None 3 ls_present post_422 ''docs'' 0 = (Inr ex_docs, [EvList None]) \<and>
   EvPost \<in> set (snd (createFolder_api None 3 ls_late post_422 ''docs'' 5)) \<and>
   EvPost \<in> set (snd (createFolder_reconcile None 3 ls_late post_422 ''docs'' 5))"
  using createFolder_returns_existing_folder [of ls_present 5 "[ex_notes, ex_docs]" "''docs''"
      ex_docs None 3 post_422]
    createFolder_returns_existing_folder [of ls_present 0 "[ex_notes, ex_docs]" "''docs''"
      ex_docs None 3 post_422]
    createFolder_returns_existing_folder [of ls_late 5 "[ex_notes]" "''docs''"
      ex_docs None 3 post_422]
  by (simp add: ls_present_def ls_late_def ex_docs_def ex_notes_def zero_FileEntry_def)

text \<open>
  What \<^verbatim>\<open>createFolder\<close> returns as success is a folder, provided that the folder decoded
  from a creation request without error is one.
\<close>

lemma find_folder_is_folder: "find_folder name r = Some e \<Longrightarrow> Type e = ''folder'' \<and> Name e = name"
  by (cases r) (auto simp: find_folder_def find_Some_iff)

lemma find_after_422_is_folder:
  "find_after_422 ls cp name a evs = (Some e, evs') \<Longrightarrow> Type e = ''folder'' \<and> Name e = name"
  by (induction ls cp name a evs rule: find_after_422.induct)
     (subst (asm) find_after_422.simps,
      auto simp: Let_def split: if_splits option.splits dest: find_folder_is_folder)

lemma pacer_Call_last:
  "pacer_Call retries fn k = (n, err) \<Longrightarrow> k < n \<and> err = snd (fn (n - 1))"
proof (induction retries arbitrary: k)
  case 0
  then show ?case by auto
next
  case (Suc r)
  show ?case
  proof (cases "fst (fn k)")
    case True
    then have "pacer_Call r fn (Suc k) = (n, err)" using Suc.prems by simp
    from Suc.IH [OF this] show ?thesis by simp
  next
    case False
    then show ?thesis using Suc.prems by auto
  qed
qed

lemma snd_createFolder_fn: "snd (createFolder_fn c post k) = a_err (post k)"
  by (simp add: createFolder_fn_def shouldRetry_def split: option.splits)

lemma createFolder_api_folder:
  assumes "\<forall>k. a_err (post k) = None \<longrightarrow> Type (a_folder (post k)) = ''folder''"
    and "createFolder_api ctx_Err retries ls post name parentID = (Inr e, evs)"
  shows "Type e = ''folder''"
proof (cases "find_folder name (ls 0 (Some parentID))")
  case (Some f)
  then show ?thesis
    using assms(2) find_folder_is_folder [OF Some] by (simp add: createFolder_api_def)
next
  case None
  obtain n err where pc: "pacer_Call retries (createFolder_fn ctx_Err post) 0 = (n, err)"
    by (cases "pacer_Call retries (createFolder_fn ctx_Err post) 0")
  have last: "err = a_err (post (n - 1))"
    using pacer_Call_last [OF pc] by (simp add: snd_createFolder_fn)
  show ?thesis
  proof (cases err)
    case (Some x)
    then show ?thesis using assms(2) None pc by (simp add: createFolder_api_def)
  next
    case errNone: None
    then have "e = a_folder (post (n - 1))"
      using assms(2) None pc by (simp add: createFolder_api_def)
    then show ?thesis using assms(1) last errNone by simp
  qed
qed

lemma createFolder_reconcile_folder:
  assumes "\<forall>k. a_err (post k) = None \<longrightarrow> Type (a_folder (post k)) = ''folder''"
    and "createFolder_reconcile ctx_Err retries ls post name parentID = (Inr e, evs)"
  shows "Type e = ''folder''"
proof -
  define cp where "cp = (if parentID = 0 then None else Some parentID)"
  show ?thesis
  proof (cases "find_folder name (ls 0 cp)")
    case (Some f)
    then show ?thesis
      using assms(2) find_folder_is_folder [OF Some]
      by (simp add: createFolder_reconcile_def cp_def [symmetric])
  next
    case None
    obtain n err where pc: "pacer_Call retries (createFolder_fn ctx_Err post) 0 = (n, err)"
      by (cases "pacer_Call retries (createFolder_fn ctx_Err post) 0")
    have last: "err = a_err (post (n - 1))"
      using pacer_Call_last [OF pc] by (simp add: snd_createFolder_fn)
    obtain found evs' where fa:
      "find_after_422 ls cp name 0 (EvList cp # replicate n EvPost) = (found, evs')"
      by (cases "find_after_422 ls cp name 0 (EvList cp # replicate n EvPost)")
    show ?thesis
    proof (cases err)
      case (Some x)
      then have "found = Some e"
        using assms(2) None pc fa
        by (auto simp: createFolder_reconcile_def cp_def [symmetric] Let_def
            split: option.splits if_splits)
      then show ?thesis using find_after_422_is_folder fa by blast
    next
      case errNone: None
      then have "e = a_folder (post (n - 1))"
        using assms(2) None pc by (simp add: createFolder_reconcile_def cp_def [symmetric])
      then show ?thesis using assms(1) last errNone by simp
    qed
  qed
qed

subsection \<open>Path resolution and mutations\<close>

lemmas path_simps = path_Join_def path_Dir_def path_Base_def path_Clean_def strings_Trim_def
  strings_TrimPrefix_def strings_HasPrefix_def

lemmas api_simps = api_listEntries_def api_createFolder_def api_deleteEntries_def
  api_renameEntry_def api_moveEntries_def

lemmas ex_entries = ex_A_def ex_B_def ex_x_in_A_def ex_x_in_B_def zero_FileEntry_def

lemma move_step1:
  "NewObject_pathCache move_service ''A/x.txt'' (NewFs_pathCache []) =
     (Inr ex_obj,
      \<lparr>root = [], calls = [ListCall None, ListCall (Some 1)],
       pathCache = [''A/x.txt'' \<mapsto> 7],
       entryCache = [1 \<mapsto> ex_A, 7 \<mapsto> ex_x_in_A], rootID = None\<rparr>)"
  by (simp add: NewObject_pathCache_def readMetadata_pathCache_def findEntry_pathCache_def
      NewFs_pathCache_def path_simps api_simps move_service_def ex_entries ex_obj_def
      setMetadata_def)

lemma move_s1_eq:
  "move_s1 = \<lparr>root = [], calls = [ListCall None, ListCall (Some 1)],
       pathCache = [''A/x.txt'' \<mapsto> 7],
       entryCache = [1 \<mapsto> ex_A, 7 \<mapsto> ex_x_in_A], rootID = None\<rparr>"
  by (simp add: move_s1_def move_step1)

lemma move_step2:
  "Move_pathCache move_service (DrimeObject ex_obj) ''B/x.txt'' move_s1 =
     (Inr (ex_obj\<lparr>obj_remote := ''B/x.txt''\<rparr>),
      \<lparr>root = [],
       calls = [ListCall None, ListCall (Some 1), ListCall None, MoveCall [7] 2,
                RenameCall 7 ''x.txt'', ListCall None, ListCall (Some 2)],
       pathCache = [''A/x.txt'' \<mapsto> 7, ''B'' \<mapsto> 2, ''B/x.txt'' \<mapsto> 7],
       entryCache = [1 \<mapsto> ex_A, 7 \<mapsto> ex_x_in_A, 2 \<mapsto> ex_B, 7 \<mapsto> ex_x_in_B],
       rootID = None\<rparr>)"
  by (simp add: move_s1_eq Move_pathCache_def NewObject_pathCache_def readMetadata_pathCache_def
      findEntry_pathCache_def path_simps api_simps move_service_def ex_entries ex_obj_def
      setMetadata_def Let_def)

lemma move_s2_eq:
  "move_s2 = \<lparr>root = [],
       calls = [ListCall None, ListCall (Some 1), ListCall None, MoveCall [7] 2,
                RenameCall 7 ''x.txt'', ListCall None, ListCall (Some 2)],
       pathCache = [''A/x.txt'' \<mapsto> 7, ''B'' \<mapsto> 2, ''B/x.txt'' \<mapsto> 7],
       entryCache = [1 \<mapsto> ex_A, 7 \<mapsto> ex_x_in_A, 2 \<mapsto> ex_B, 7 \<mapsto> ex_x_in_B],
       rootID = None\<rparr>"
  using move_step2 by (simp add: move_s2_def)

text \<open>
  C1. Mutations are meant to remove the cache rows of the structure they change before they
  return. \<^verbatim>\<open>Move\<close> of the pathCache variant does not touch either table: after
  \<^verbatim>\<open>A/x.txt\<close> has been moved to \<^verbatim>\<open>B/x.txt\<close> with success, and although the service
  no longer lists anything in \<^verbatim>\<open>A\<close>, resolving \<^verbatim>\<open>A/x.txt\<close> succeeds from the stale
  path row, without a remote call, and returns the entry that now lives in \<^verbatim>\<open>B\<close>.
\<close>

theorem Move_leaves_stale_cache_rows:
  "fst (NewObject_pathCache move_service ''A/x.txt'' (NewFs_pathCache [])) = Inr ex_obj \<and>
   fst (Move_pathCache move_service (DrimeObject ex_obj) ''B/x.txt'' move_s1)
     = Inr (ex_obj\<lparr>obj_remote := ''B/x.txt''\<rparr>) \<and>
   on_listEntries move_service (length (calls move_s2)) (Some 1) = Inr [] \<and>
   findEntry_pathCache move_service ''A/x.txt'' move_s2 = (Inr ex_x_in_B, move_s2)"
  by (simp add: move_step1 move_step2 [unfolded ex_obj_def] ex_obj_def,
      simp add: move_s2_eq findEntry_pathCache_def move_service_def)

text \<open>
  C4. A rename is meant to follow the move only when the last element of the destination
  differs from the name of the source. \<^verbatim>\<open>Move\<close> of the pathCache variant compares the
  last element of the destination with the whole remote path of the source: moving
  \<^verbatim>\<open>A/x.txt\<close> to \<^verbatim>\<open>B/x.txt\<close>, where both last elements are \<^verbatim>\<open>x.txt\<close>, issues a rename
  request after the move request.
\<close>

theorem Move_renames_although_basename_unchanged:
  "path_Base (path_Join [root move_s1, ''B/x.txt'']) = path_Base (obj_remote ex_obj) \<and>
   calls (snd (Move_pathCache move_service (DrimeObject ex_obj) ''B/x.txt'' move_s1)) =
     calls move_s1 @
     [ListCall None, MoveCall [7] 2, RenameCall 7 ''x.txt'', ListCall None, ListCall (Some 2)]"
  using move_step2 by (simp add: move_s1_eq path_simps ex_obj_def)

text \<open>
  The claim C3 as it was stated fails for \<^verbatim>\<open>findEntry\<close> of the pathCache variant: in a
  fresh session the empty path is not found.
\<close>

theorem findEntry_pathCache_root_not_found:
  "findEntry_pathCache move_service [] (NewFs_pathCache []) =
     (Inl ErrorObjectNotFound, NewFs_pathCache [])"
  by (simp add: findEntry_pathCache_def NewFs_pathCache_def strings_Trim_def)

lemma findEntry_pathCache_walk_root:
  "findEntry_pathCache_walk svc (strings_Split [] (CHR ''/'')) cur t = (Inr cur, t)"
  by simp

text \<open>
  C3, as amended. Let the path be empty after trimming slashes. In the dirCache variant
  \<^verbatim>\<open>findEntry\<close> succeeds with the synthetic folder entry of id 0 and leaves the session
  as it was, so no remote call is made. In the pathCache variant no remote call is made
  either, but there is no synthetic entry: the result is an entry of the entry cache or
  \<^verbatim>\<open>ErrorObjectNotFound\<close>, and it is \<^verbatim>\<open>ErrorObjectNotFound\<close> whenever \<^verbatim>\<open>rootID\<close> is
  unset (as \<^verbatim>\<open>NewFs\<close> leaves it) and the path has no row in the path cache.
\<close>

theorem findEntry_empty_path:
  assumes "strings_Trim path ''/'' = []"
  shows
    "findEntry_dirCache svc path s =
       (Inr \<lparr>ID = 0, Name = [], Type = ''folder'', FileSize = 0, FileHash = None, UpdatedAt = 0,
             ParentID = None, URL = []\<rparr>, s) \<and>
     calls (snd (findEntry_pathCache svc path t)) = calls t \<and>
     (fst (findEntry_pathCache svc path t) = Inl ErrorObjectNotFound \<or>
      (\<exists>i e. entryCache t i = Some e \<and> fst (findEntry_pathCache svc path t) = Inr e)) \<and>
     (rootID t = None \<and> pathCache t path = None \<longrightarrow>
        findEntry_pathCache svc path t = (Inl ErrorObjectNotFound, t))"
proof (intro conjI impI)
  show "findEntry_dirCache svc path s =
       (Inr \<lparr>ID = 0, Name = [], Type = ''folder'', FileSize = 0, FileHash = None, UpdatedAt = 0,
             ParentID = None, URL = []\<rparr>, s)"
    using assms by (simp add: findEntry_dirCache_def zero_FileEntry_def)
  show "calls (snd (findEntry_pathCache svc path t)) = calls t"
    using assms by (auto simp: findEntry_pathCache_def split: option.splits)
  show "fst (findEntry_pathCache svc path t) = Inl ErrorObjectNotFound \<or>
      (\<exists>i e. entryCache t i = Some e \<and> fst (findEntry_pathCache svc path t) = Inr e)"
    using assms by (auto simp: findEntry_pathCache_def split: option.splits)
  assume "rootID t = None \<and> pathCache t path = None"
  then show "findEntry_pathCache svc path t = (Inl ErrorObjectNotFound, t)"
    using assms by (simp add: findEntry_pathCache_def)
qed

theorem findEntry_empty_path_witness:
  "findEntry_dirCache move_service ''//'' (NewFs_dirCache []) =
       (Inr \<lparr>ID = 0, Name = [], Type = ''folder'', FileSize = 0, FileHash = None, UpdatedAt = 0,
             ParentID = None, URL = []\<rparr>, NewFs_dirCache []) \<and>
   findEntry_pathCache move_service ''//'' (NewFs_pathCache []) =
       (Inl ErrorObjectNotFound, NewFs_pathCache []) \<and>
   calls (snd (findEntry_pathCache move_service ''/'' cached_root_Fs)) = []"
  using findEntry_empty_path [of "''//''" move_service "NewFs_dirCache []" "NewFs_pathCache []"]
    findEntry_empty_path [of "''/''" move_service "NewFs_dirCache []" cached_root_Fs]
  by (simp add: strings_Trim_def NewFs_pathCache_def cached_root_Fs_def)

text \<open>
  The rows of the pathCache variant. A successful \<^verbatim>\<open>findEntry\<close> leaves the path and the
  entry in the tables, and a path that is in both tables is answered from them. \<^verbatim>\<open>Purge\<close>
  removes nothing: the purged folder still resolves, whatever the service says afterwards.
  \<^verbatim>\<open>Rmdir\<close> and \<^verbatim>\<open>Object.Remove\<close> do remove their rows.
\<close>

lemma walk_pathCache_tables:
  "pathCache (snd (findEntry_pathCache_walk svc parts cur s)) = pathCache s \<and>
   rootID (snd (findEntry_pathCache_walk svc parts cur s)) = rootID s"
  by (induction svc parts cur s rule: findEntry_pathCache_walk.induct)
     (auto simp: api_listEntries_def split: sum.splits option.splits)

lemma walk_pathCache_result:
  "findEntry_pathCache_walk svc parts cur s = (Inr r, s1) \<Longrightarrow>
   (r = cur \<and> s1 = s) \<or> (\<exists>e. r = Some (ID e) \<and> entryCache s1 (ID e) = Some e)"
proof (induction svc parts cur s rule: findEntry_pathCache_walk.induct)
  case (1 svc currentID s)
  then show ?case by simp
next
  case (2 svc part rest currentID s)
  show ?case
  proof (cases "part = []")
    case True
    then show ?thesis using 2 by simp
  next
    case False
    define s0 where "s0 = s\<lparr>calls := calls s @ [ListCall currentID]\<rparr>"
    have l: "api_listEntries svc currentID s = (on_listEntries svc (length (calls s)) currentID, s0)"
      by (simp add: api_listEntries_def s0_def)
    show ?thesis
    proof (cases "on_listEntries svc (length (calls s)) currentID")
      case (Inl err)
      then show ?thesis using "2.prems" False l by simp
    next
      case (Inr entries)
      show ?thesis
      proof (cases "find (\<lambda>e. Name e = part) entries")
        case None
        then show ?thesis using "2.prems" False l Inr by simp
      next
        case (Some e)
        define s2 where "s2 = s0\<lparr>entryCache := (entryCache s0)(ID e \<mapsto> e)\<rparr>"
        have w: "findEntry_pathCache_walk svc rest (Some (ID e)) s2 = (Inr r, s1)"
          using "2.prems" False l Inr Some by (simp add: s2_def)
        from "2.IH"(2) [OF False l [symmetric] Inr Some w [unfolded s2_def]]
        have "(r = Some (ID e) \<and> s1 = s2) \<or> (\<exists>e. r = Some (ID e) \<and> entryCache s1 (ID e) = Some e)"
          by (simp add: s2_def)
        then show ?thesis by (auto simp: s2_def)
      qed
    qed
  qed
qed

lemma findEntry_pathCache_hit:
  "pathCache s p = Some i \<Longrightarrow> entryCache s i = Some e \<Longrightarrow>
   findEntry_pathCache svc p s = (Inr e, s)"
  by (simp add: findEntry_pathCache_def)

lemma findEntry_pathCache_caches:
  assumes "rootID s = None" and "findEntry_pathCache svc p s = (Inr e, s1)"
  shows "\<exists>i. pathCache s1 p = Some i \<and> entryCache s1 i = Some e"
proof (cases "case pathCache s p of Some i \<Rightarrow> entryCache s i | None \<Rightarrow> None")
  case (Some c)
  then have "s1 = s" "c = e" using assms(2) by (simp_all add: findEntry_pathCache_def)
  then show ?thesis using Some by (auto split: option.splits)
next
  case None
  define parts where "parts = strings_Split (strings_Trim p ''/'') (CHR ''/'')"
  obtain wr ws where w: "findEntry_pathCache_walk svc parts (rootID s) s = (wr, ws)"
    by (cases "findEntry_pathCache_walk svc parts (rootID s) s")
  from assms(2) None w obtain cid where
    wr: "wr = Inr (Some cid)" and ec: "entryCache ws cid = Some e"
    and s1: "s1 = ws\<lparr>pathCache := (pathCache ws)(p \<mapsto> ID e)\<rparr>"
    by (auto simp: findEntry_pathCache_def parts_def [symmetric]
        split: sum.splits option.splits)
  from walk_pathCache_result [OF w [unfolded wr]] assms(1)
  obtain e0 where "cid = ID e0" "entryCache ws (ID e0) = Some e0" by auto
  then have "cid = ID e" using ec by simp
  then show ?thesis using s1 ec by simp
qed

lemma Purge_pathCache_leaves_rows:
  assumes "rootID s = None" and "Purge_pathCache svc dir s = (None, s')"
  shows "\<exists>e. Type e = ''folder'' \<and>
           findEntry_pathCache svc' (path_Join [root s, dir]) s' = (Inr e, s')"
proof -
  define dirPath where "dirPath = path_Join [root s, dir]"
  obtain fr s1 where f: "findEntry_pathCache svc dirPath s = (fr, s1)"
    by (cases "findEntry_pathCache svc dirPath s")
  from assms(2) f obtain e where fr: "fr = Inr e" and t: "Type e = ''folder''"
    and s': "s' = s1\<lparr>calls := calls s1 @ [DeleteCall [ID e] True]\<rparr>"
    by (auto simp: Purge_pathCache_def dirPath_def [symmetric] api_deleteEntries_def
        split: sum.splits if_splits)
  from findEntry_pathCache_caches [OF assms(1) f [unfolded fr]]
  obtain i where "pathCache s1 dirPath = Some i" "entryCache s1 i = Some e" by blast
  then have "pathCache s' dirPath = Some i" "entryCache s' i = Some e" by (simp_all add: s')
  from findEntry_pathCache_hit [OF this] t show ?thesis
    unfolding dirPath_def by blast
qed

lemma Rmdir_pathCache_clears:
  "Rmdir_pathCache svc dir s = (None, s') \<Longrightarrow> pathCache s' (path_Join [root s, dir]) = None"
  by (auto simp: Rmdir_pathCache_def Let_def api_deleteEntries_def api_listEntries_def
      split: prod.splits sum.splits if_splits option.splits)

lemma Remove_pathCache_clears:
  "Remove_pathCache svc obj s = (None, s') \<Longrightarrow>
   pathCache s' (path_Join [root s, obj_remote obj]) = None \<and> entryCache s' (obj_id obj) = None"
  by (auto simp: Remove_pathCache_def api_deleteEntries_def split: option.splits)

subsection \<open>The path cache of the dirCache variant\<close>


lemma only_folders_calls [simp]: "only_folders (s\<lparr>calls := c\<rparr>) = only_folders s"
  by (simp add: only_folders_def)

lemma only_folders_root [simp]: "only_folders (s\<lparr>root := r\<rparr>) = only_folders s"
  by (simp add: only_folders_def)

lemma only_folders_mkdirCache [simp]: "only_folders (s\<lparr>mkdirCache := m\<rparr>) = only_folders s"
  by (simp add: only_folders_def)

lemma api_listEntries_dirCache [simp]:
  "dirCache (snd (api_listEntries svc parent s)) = dirCache s"
  by (simp add: api_listEntries_def)

lemma only_folders_cong: "dirCache s' = dirCache s \<Longrightarrow> only_folders s' = only_folders s"
  by (simp add: only_folders_def)





lemma only_folders_api_deleteEntries:
  "only_folders s \<Longrightarrow> api_deleteEntries svc ids perm s = (r, s') \<Longrightarrow> only_folders s'"
  by (auto simp: api_deleteEntries_def)


lemma only_folders_api_renameEntry:
  "only_folders s \<Longrightarrow> api_renameEntry svc i n s = (r, s') \<Longrightarrow> only_folders s'"
  by (auto simp: api_renameEntry_def)










lemma addDirCacheEntry_calls [simp]: "calls (addDirCacheEntry p e s) = calls s"
  by (simp add: addDirCacheEntry_def)






subsection \<open>Mkdir in the dirCache variant, one call after the other\<close>

text \<open>
  The \<^verbatim>\<open>sync.Once\<close> of a path lets \<^verbatim>\<open>mkdir\<close> run once in a session. Whatever that
  run returned, every later \<^verbatim>\<open>Mkdir\<close> of the path returns \<^verbatim>\<open>nil\<close> and does nothing,
  because only the call that ran \<^verbatim>\<open>mkdir\<close> has its \<^verbatim>\<open>err\<close> assigned: after a failed first
  call the second call reports success.
\<close>

lemma addDirCacheEntry_root [simp]: "root (addDirCacheEntry p e s) = root s"
  by (simp add: addDirCacheEntry_def)

lemma walk_dirCache_root:
  "root (snd (findEntry_dirCache_walk svc rp seen rest cur s)) = root s"
proof (induction svc rp seen rest cur s rule: findEntry_dirCache_walk.induct)
  case (1 svc remotePath seen currentID s)
  show ?case by simp
next
  case (2 svc remotePath seen part rest currentID s)
  define currentPath where "currentPath = strings_Join (seen @ [part]) ''/''"
  show ?case
  proof (cases "dirCache s currentPath")
    case (Some c)
    then show ?thesis
      using "2.IH"(2) [OF currentPath_def Some] by (simp add: currentPath_def [symmetric])
  next
    case None
    define parent where "parent = (if seen = [] then None else Some currentID)"
    define s1 where "s1 = s\<lparr>calls := calls s @ [ListCall parent]\<rparr>"
    have l: "api_listEntries svc parent s = (on_listEntries svc (length (calls s)) parent, s1)"
      by (simp add: api_listEntries_def s1_def)
    have r1: "root s1 = root s" by (simp add: s1_def)
    show ?thesis
    proof (cases "on_listEntries svc (length (calls s)) parent")
      case (Inl err)
      then show ?thesis
        using None l r1 by (simp add: currentPath_def [symmetric] parent_def [symmetric])
    next
      case (Inr entries)
      show ?thesis
      proof (cases "find (\<lambda>x. Name x = part) entries")
        case None': None
        then show ?thesis
          using None l Inr r1 by (simp add: currentPath_def [symmetric] parent_def [symmetric])
      next
        case (Some x)
        define s2 where "s2 = (if Type x = ''folder'' then addDirCacheEntry currentPath x s1 else s1)"
        have r2: "root s2 = root s" by (simp add: s2_def r1)
        show ?thesis
        proof (cases "currentPath = remotePath")
          case True
          have "snd (findEntry_dirCache_walk svc remotePath seen (part # rest) currentID s) = s2"
            using None l Inr Some True unfolding s2_def
            by (auto simp: currentPath_def [symmetric] parent_def [symmetric] Let_def)
          then show ?thesis using r2 by simp
        next
          case False
          have w: "findEntry_dirCache_walk svc remotePath seen (part # rest) currentID s
                   = findEntry_dirCache_walk svc remotePath (seen @ [part]) rest (ID x) s2"
            using None l Inr Some False unfolding s2_def
            by (simp add: currentPath_def [symmetric] parent_def [symmetric] Let_def)
          show ?thesis
            using "2.IH"(1) [OF currentPath_def None l [unfolded parent_def, symmetric]
                Inr [unfolded parent_def] Some s2_def False] w r2
            by simp
        qed
      qed
    qed
  qed
qed

lemma findEntry_dirCache_root:
  assumes "findEntry_dirCache svc path s = (r, s')"
  shows "root s' = root s"
proof -
  define rp where "rp = strings_Trim path ''/''"
  show ?thesis
  proof (cases "rp = [] \<or> dirCache s rp \<noteq> None")
    case True
    then have "s' = s" using assms
      by (auto simp: findEntry_dirCache_def rp_def [symmetric] split: if_splits)
    then show ?thesis by simp
  next
    case False
    then have "s' = snd (findEntry_dirCache_walk svc rp [] (strings_Split rp (CHR ''/'')) 0 s)"
      using assms by (auto simp: findEntry_dirCache_def rp_def [symmetric])
    then show ?thesis using walk_dirCache_root by simp
  qed
qed

lemma mkdir_create_root:
  assumes "mkdir_create svc dirPath parentID s = (r, s')"
  shows "root s' = root s"
proof -
  define s1 where "s1 = s\<lparr>calls := calls s @ [CreateCall (path_Base dirPath) parentID]\<rparr>"
  have c: "api_createFolder svc (path_Base dirPath) parentID s =
      (on_createFolder svc (length (calls s)) (path_Base dirPath) parentID, s1)"
    by (simp add: api_createFolder_def s1_def)
  have r1: "root s1 = root s" by (simp add: s1_def)
  obtain fr s2 where f: "findEntry_dirCache svc dirPath s1 = (fr, s2)"
    by (cases "findEntry_dirCache svc dirPath s1")
  have r2: "root s2 = root s" using findEntry_dirCache_root [OF f] r1 by simp
  show ?thesis
  proof (cases "on_createFolder svc (length (calls s)) (path_Base dirPath) parentID")
    case (Inl e)
    then show ?thesis
      using assms c f r2 by (cases fr) (auto simp: mkdir_create_def)
  next
    case (Inr entry)
    then show ?thesis
      using assms c r1 by (auto simp: mkdir_create_def)
  qed
qed

lemma Mkdir_mkdir_root:
  shows "Mkdir_dirCache fuel svc dir s = Some (r, s') \<Longrightarrow> root s' = root s"
    and "mkdir_dirCache fuel svc dirPath s = Some (r, s') \<Longrightarrow> root s' = root s"
proof (induction fuel svc dir s and fuel svc dirPath s arbitrary: r s' and r s'
    rule: Mkdir_dirCache_mkdir_dirCache.induct)
  case (1 svc dir s)
  then show ?case by simp
next
  case (2 fuel svc dir s)
  define dirPath where "dirPath = path_Join [root s, dir]"
  show ?case
  proof (cases "dirPath = [] \<or> dirPath = ''.''")
    case True
    then show ?thesis using "2.prems" by (simp add: dirPath_def [symmetric])
  next
    case False
    show ?thesis
    proof (cases "mkdirCache s dirPath")
      case (Some st)
      then show ?thesis
        using "2.prems" False by (cases st) (simp_all add: dirPath_def [symmetric])
    next
      case None
      define s0 where "s0 = s\<lparr>mkdirCache := (mkdirCache s)(dirPath \<mapsto> Running)\<rparr>"
      from "2.prems" False None obtain s1 where
        m: "mkdir_dirCache fuel svc dirPath s0 = Some (r, s1)"
        and s': "s' = s1\<lparr>mkdirCache := (mkdirCache s1)(dirPath \<mapsto> Done)\<rparr>"
        by (auto simp: dirPath_def [symmetric] s0_def [symmetric] split: option.splits)
      have "root s1 = root s0"
        using "2.IH" [OF dirPath_def False None m [unfolded s0_def]] by (simp add: s0_def)
      then show ?thesis by (simp add: s' s0_def)
    qed
  qed
next
  case (3 fuel svc dirPath s)
  obtain fr s1 where f: "findEntry_dirCache svc dirPath s = (fr, s1)"
    by (cases "findEntry_dirCache svc dirPath s")
  have s1: "root s1 = root s" using findEntry_dirCache_root [OF f] .
  show ?case
  proof (cases fr)
    case (Inr found)
    then show ?thesis using "3.prems" f s1 by simp
  next
    case (Inl err)
    show ?thesis
    proof (cases "err \<noteq> ErrorObjectNotFound")
      case True
      then show ?thesis using "3.prems" f Inl s1 by simp
    next
      case False
      define parentPath where "parentPath = path_Dir dirPath"
      show ?thesis
      proof (cases "parentPath \<noteq> [] \<and> parentPath \<noteq> ''.''")
        case pFalse: False
        then have "mkdir_create svc dirPath 0 s1 = (r, s')"
          using "3.prems" f Inl False by (auto simp: parentPath_def [symmetric] Let_def)
        then show ?thesis using mkdir_create_root s1 by simp
      next
        case True
        define up where "up = Mkdir_dirCache fuel svc (strings_TrimPrefix parentPath (root s1 @ ''/'')) s1"
        from "3.prems" f Inl False True
        have eq: "(case up of
                  None \<Rightarrow> None
                | Some (Some err2, s2) \<Rightarrow> Some (Some err2, s2)
                | Some (None, s2) \<Rightarrow>
                    (case findEntry_dirCache svc parentPath s2 of
                       (Inl findErr, s3) \<Rightarrow> Some (Some findErr, s3)
                     | (Inr parentEntry, s3) \<Rightarrow>
                         Some (mkdir_create svc dirPath (ID parentEntry) s3))) = Some (r, s')"
          by (simp add: parentPath_def [symmetric] up_def [symmetric] Let_def)
        then obtain ur s2 where u: "up = Some (ur, s2)"
          by (cases up) auto
        have s2: "root s2 = root s"
          using "3.IH" [OF f [symmetric] Inl _ parentPath_def True u [unfolded up_def]] False s1
          by simp
        show ?thesis
        proof (cases ur)
          case (Some e2)
          then show ?thesis using eq u s2 by simp
        next
          case None
          obtain pr s3 where pf: "findEntry_dirCache svc parentPath s2 = (pr, s3)"
            by (cases "findEntry_dirCache svc parentPath s2")
          have s3: "root s3 = root s" using findEntry_dirCache_root [OF pf] s2 by simp
          show ?thesis
          proof (cases pr)
            case (Inl findErr)
            then show ?thesis using eq u None pf s3 by simp
          next
            case (Inr parentEntry)
            then have "mkdir_create svc dirPath (ID parentEntry) s3 = (r, s')"
              using eq u None pf by simp
            then show ?thesis using mkdir_create_root s3 by simp
          qed
        qed
      qed
    qed
  qed
qed

lemma Mkdir_dirCache_runs_once:
  assumes "Mkdir_dirCache fuel svc dir s = Some (err, s')"
  shows "Mkdir_dirCache (Suc fuel') svc' dir s' = Some (None, s')"
proof -
  define dirPath where "dirPath = path_Join [root s, dir]"
  have fuel: "fuel \<noteq> 0" using assms by (cases fuel) simp_all
  then obtain f where f: "fuel = Suc f" by (cases fuel) simp_all
  have r: "root s' = root s" using Mkdir_mkdir_root(1) [OF assms] .
  show ?thesis
  proof (cases "dirPath = [] \<or> dirPath = ''.''")
    case True
    then show ?thesis using r by (simp add: dirPath_def [symmetric])
  next
    case False
    have "mkdirCache s' dirPath = Some Done"
    proof (cases "mkdirCache s dirPath")
      case (Some st)
      then show ?thesis
        using assms False f by (cases st) (simp_all add: dirPath_def [symmetric])
    next
      case None
      then show ?thesis
        using assms False f
        by (auto simp: dirPath_def [symmetric] split: option.splits)
    qed
    then show ?thesis using False r by (simp add: dirPath_def [symmetric])
  qed
qed

lemma Mkdir_dirCache_failure_then_success:
  "Mkdir_dirCache 2 down_service ''docs'' (NewFs_dirCache []) =
     Some (Some (RemoteError ''connection refused''),
           (NewFs_dirCache [])\<lparr>calls := [ListCall None], mkdirCache := [''docs'' \<mapsto> Done]\<rparr>) \<and>
   Mkdir_dirCache 2 down_service ''docs''
       ((NewFs_dirCache [])\<lparr>calls := [ListCall None], mkdirCache := [''docs'' \<mapsto> Done]\<rparr>) =
     Some (None, (NewFs_dirCache [])\<lparr>calls := [ListCall None], mkdirCache := [''docs'' \<mapsto> Done]\<rparr>)"
  by (simp add: numeral_2_eq_2 findEntry_dirCache_def NewFs_dirCache_def path_simps
      api_simps down_service_def Let_def)

subsection \<open>Move in the dirCache variant\<close>

text \<open>
  \<^verbatim>\<open>findEntry\<close> and \<^verbatim>\<open>NewObject\<close> only list. \<^verbatim>\<open>Move\<close> of the dirCache variant
  compares the last elements: with equal last elements it never sends a rename request;
  with different ones, a move that returns success has sent the rename request right
  after the move request. \<open>Move_dirCache_unfold\<close> shows each step with its calls: a
  failed rename is returned as the error, after the move and the rename request and
  nothing else.
\<close>

lemma walk_dirCache_calls:
  "\<exists>ps. calls (snd (findEntry_dirCache_walk svc rp seen rest cur s)) = calls s @ map ListCall ps"
proof (induction svc rp seen rest cur s rule: findEntry_dirCache_walk.induct)
  case (1 svc remotePath seen currentID s)
  have "calls s = calls s @ map ListCall []" by simp
  then show ?case by (simp del: append_Nil2 list.map)
next
  case (2 svc remotePath seen part rest currentID s)
  define currentPath where "currentPath = strings_Join (seen @ [part]) ''/''"
  show ?case
  proof (cases "dirCache s currentPath")
    case (Some c)
    then show ?thesis
      using "2.IH"(2) [OF currentPath_def Some] by (simp add: currentPath_def [symmetric])
  next
    case None
    define parent where "parent = (if seen = [] then None else Some currentID)"
    define s1 where "s1 = s\<lparr>calls := calls s @ [ListCall parent]\<rparr>"
    have l: "api_listEntries svc parent s = (on_listEntries svc (length (calls s)) parent, s1)"
      by (simp add: api_listEntries_def s1_def)
    have one: "calls s1 = calls s @ map ListCall [parent]" by (simp add: s1_def)
    show ?thesis
    proof (cases "on_listEntries svc (length (calls s)) parent")
      case (Inl err)
      then have "snd (findEntry_dirCache_walk svc remotePath seen (part # rest) currentID s) = s1"
        using None l by (simp add: currentPath_def [symmetric] parent_def [symmetric])
      then show ?thesis using one by metis
    next
      case (Inr entries)
      show ?thesis
      proof (cases "find (\<lambda>x. Name x = part) entries")
        case None': None
        then have "snd (findEntry_dirCache_walk svc remotePath seen (part # rest) currentID s) = s1"
          using None l Inr by (simp add: currentPath_def [symmetric] parent_def [symmetric])
        then show ?thesis using one by metis
      next
        case (Some x)
        define s2 where "s2 = (if Type x = ''folder'' then addDirCacheEntry currentPath x s1 else s1)"
        have c2: "calls s2 = calls s @ map ListCall [parent]"
          by (simp add: s2_def s1_def addDirCacheEntry_def)
        show ?thesis
        proof (cases "currentPath = remotePath")
          case True
          have "snd (findEntry_dirCache_walk svc remotePath seen (part # rest) currentID s) = s2"
            using None l Inr Some True unfolding s2_def
            by (auto simp: currentPath_def [symmetric] parent_def [symmetric] Let_def)
          then show ?thesis using c2 by metis
        next
          case False
          have w: "findEntry_dirCache_walk svc remotePath seen (part # rest) currentID s
                   = findEntry_dirCache_walk svc remotePath (seen @ [part]) rest (ID x) s2"
            using None l Inr Some False unfolding s2_def
            by (simp add: currentPath_def [symmetric] parent_def [symmetric] Let_def)
          obtain ps where "calls (snd (findEntry_dirCache_walk svc remotePath (seen @ [part]) rest
                (ID x) s2)) = calls s2 @ map ListCall ps"
            using "2.IH"(1) [OF currentPath_def None l [unfolded parent_def, symmetric]
                Inr [unfolded parent_def] Some s2_def False]
            by blast
          then have "calls (snd (findEntry_dirCache_walk svc remotePath seen (part # rest) currentID s))
              = calls s @ map ListCall (parent # ps)"
            using w c2 by simp
          then show ?thesis by blast
        qed
      qed
    qed
  qed
qed

lemma findEntry_dirCache_calls:
  "findEntry_dirCache svc path s = (r, s') \<Longrightarrow> \<exists>ps. calls s' = calls s @ map ListCall ps"
proof -
  assume a: "findEntry_dirCache svc path s = (r, s')"
  define rp where "rp = strings_Trim path ''/''"
  have nil: "calls s = calls s @ map ListCall []" by simp
  show ?thesis
  proof (cases "rp = [] \<or> dirCache s rp \<noteq> None")
    case True
    then have "s' = s" using a
      by (auto simp: findEntry_dirCache_def rp_def [symmetric] split: if_splits)
    then show ?thesis using nil by metis
  next
    case False
    then have "s' = snd (findEntry_dirCache_walk svc rp [] (strings_Split rp (CHR ''/'')) 0 s)"
      using a by (auto simp: findEntry_dirCache_def rp_def [symmetric])
    then show ?thesis using walk_dirCache_calls by simp
  qed
qed

lemma readMetadata_dirCache_calls:
  assumes "readMetadata_dirCache svc obj s = (r, s')"
  shows "\<exists>ps. calls s' = calls s @ map ListCall ps"
proof -
  define dirPath where "dirPath = path_Dir (path_Join [root s, obj_remote obj])"
  obtain fr s1 where f: "findEntry_dirCache svc dirPath s = (fr, s1)"
    by (cases "findEntry_dirCache svc dirPath s")
  obtain ps where ps: "calls s1 = calls s @ map ListCall ps"
    using findEntry_dirCache_calls [OF f] by blast
  have "s' = s1 \<or> (\<exists>p. calls s' = calls s1 @ map ListCall [p]) \<or>
        (\<exists>p. calls s' = calls s @ map ListCall [p])"
    using assms f
    by (auto simp: readMetadata_dirCache_def Let_def dirPath_def [symmetric] api_listEntries_def
        split: sum.splits if_splits option.splits)
  then consider "s' = s1" | p where "calls s' = calls s1 @ map ListCall [p]"
    | p where "calls s' = calls s @ map ListCall [p]" by blast
  then show ?thesis
  proof cases
    case 1
    then show ?thesis using ps by blast
  next
    case 2
    then have "calls s' = calls s @ map ListCall (ps @ [p])" using ps by simp
    then show ?thesis by blast
  next
    case 3
    then show ?thesis by blast
  qed
qed

lemma Move_dirCache_unfold:
  "Move_dirCache svc (DrimeObject srcObj) remote s =
     (case (if path_Dir (path_Join [root s, remote]) \<noteq> [] \<and>
               path_Dir (path_Join [root s, remote]) \<noteq> ''.''
            then (case findEntry_dirCache svc (path_Dir (path_Join [root s, remote])) s of
                    (Inl err, s1) \<Rightarrow> (Inl err, s1)
                  | (Inr parentEntry, s1) \<Rightarrow> (Inr (ID parentEntry), s1))
            else (Inr 0, s)) of
        (Inl err, s1) \<Rightarrow> (Inl err, s1)
      | (Inr dstParentID, s1) \<Rightarrow>
          (case on_moveEntries svc (length (calls s1)) [obj_id srcObj] dstParentID of
             Some err \<Rightarrow> (Inl err, s1\<lparr>calls := calls s1 @ [MoveCall [obj_id srcObj] dstParentID]\<rparr>)
           | None \<Rightarrow>
               if path_Base (path_Join [root s, remote]) \<noteq> path_Base (obj_remote srcObj) then
                 (case on_renameEntry svc (Suc (length (calls s1))) (obj_id srcObj)
                         (path_Base (path_Join [root s, remote])) of
                    Inl err \<Rightarrow>
                      (Inl err,
                       s1\<lparr>calls := calls s1 @
                            [MoveCall [obj_id srcObj] dstParentID,
                             RenameCall (obj_id srcObj) (path_Base (path_Join [root s, remote]))]\<rparr>)
                  | Inr renamed \<Rightarrow>
                      NewObject_dirCache svc remote
                        (s1\<lparr>calls := calls s1 @
                            [MoveCall [obj_id srcObj] dstParentID,
                             RenameCall (obj_id srcObj) (path_Base (path_Join [root s, remote]))]\<rparr>))
               else NewObject_dirCache svc remote
                      (s1\<lparr>calls := calls s1 @ [MoveCall [obj_id srcObj] dstParentID]\<rparr>)))"
  by (simp add: Move_dirCache_def Let_def api_moveEntries_def api_renameEntry_def
      split: prod.splits sum.splits option.splits)

lemma NewObject_dirCache_calls:
  "NewObject_dirCache svc remote s = (r, s') \<Longrightarrow> \<exists>ps. calls s' = calls s @ map ListCall ps"
  unfolding NewObject_dirCache_def by (rule readMetadata_dirCache_calls)

lemma Move_dirCache_parent_calls:
  assumes "(if dir \<noteq> [] \<and> dir \<noteq> ''.''
            then (case findEntry_dirCache svc dir s of
                    (Inl err, s1) \<Rightarrow> (Inl err, s1)
                  | (Inr parentEntry, s1) \<Rightarrow> (Inr (ID parentEntry), s1))
            else (Inr 0, s)) = (pr, s1)"
  shows "\<exists>ps. calls s1 = calls s @ map ListCall ps"
proof -
  obtain fr fs where f: "findEntry_dirCache svc dir s = (fr, fs)"
    by (cases "findEntry_dirCache svc dir s")
  obtain ps0 where ps0: "calls fs = calls s @ map ListCall ps0"
    using findEntry_dirCache_calls [OF f] by blast
  have "s1 = s \<or> s1 = fs"
    using assms f by (cases fr) (simp_all split: if_splits)
  then show ?thesis
  proof
    assume "s1 = s"
    then have "calls s1 = calls s @ map ListCall []" by simp
    then show ?thesis by blast
  next
    assume "s1 = fs"
    then show ?thesis using ps0 by blast
  qed
qed

lemma Move_dirCache_same_basename:
  assumes same: "path_Base (path_Join [root s, remote]) = path_Base (obj_remote srcObj)"
    and mv: "Move_dirCache svc (DrimeObject srcObj) remote s = (r, s')"
  shows "\<exists>cs. calls s' = calls s @ cs \<and> (\<forall>i n. RenameCall i n \<notin> set cs)"
proof -
  define parent where "parent = (if path_Dir (path_Join [root s, remote]) \<noteq> [] \<and>
               path_Dir (path_Join [root s, remote]) \<noteq> ''.''
            then (case findEntry_dirCache svc (path_Dir (path_Join [root s, remote])) s of
                    (Inl err, s1) \<Rightarrow> (Inl err, s1)
                  | (Inr parentEntry, s1) \<Rightarrow> (Inr (ID parentEntry), s1))
            else (Inr 0, s))"
  obtain pr s1 where p: "parent = (pr, s1)" by (cases parent)
  obtain ps where ps: "calls s1 = calls s @ map ListCall ps"
    using Move_dirCache_parent_calls [OF p [unfolded parent_def]] by blast
  have u: "(case pr of
        Inl err \<Rightarrow> (Inl err, s1)
      | Inr d \<Rightarrow>
          (case on_moveEntries svc (length (calls s1)) [obj_id srcObj] d of
             Some err \<Rightarrow> (Inl err, s1\<lparr>calls := calls s1 @ [MoveCall [obj_id srcObj] d]\<rparr>)
           | None \<Rightarrow> NewObject_dirCache svc remote
                      (s1\<lparr>calls := calls s1 @ [MoveCall [obj_id srcObj] d]\<rparr>))) = (r, s')"
    using mv same unfolding Move_dirCache_unfold parent_def [symmetric] p
    by (auto split: sum.splits option.splits)
  show ?thesis
  proof (cases pr)
    case (Inl e)
    then have "calls s' = calls s @ map ListCall ps" using u ps by auto
    moreover have "\<forall>i n. RenameCall i n \<notin> set (map ListCall ps)" by auto
    ultimately show ?thesis by blast
  next
    case (Inr d)
    show ?thesis
    proof (cases "on_moveEntries svc (length (calls s1)) [obj_id srcObj] d")
      case (Some e)
      then have "calls s' = calls s @ (map ListCall ps @ [MoveCall [obj_id srcObj] d])"
        using u Inr ps by auto
      moreover have "\<forall>i n. RenameCall i n \<notin> set (map ListCall ps @ [MoveCall [obj_id srcObj] d])"
        by auto
      ultimately show ?thesis by blast
    next
      case None
      then have "NewObject_dirCache svc remote
                      (s1\<lparr>calls := calls s1 @ [MoveCall [obj_id srcObj] d]\<rparr>) = (r, s')"
        using u Inr by simp
      from NewObject_dirCache_calls [OF this] obtain qs where
        "calls s' = calls s @ (map ListCall ps @ [MoveCall [obj_id srcObj] d] @ map ListCall qs)"
        using ps by auto
      moreover have "\<forall>i n. RenameCall i n \<notin>
          set (map ListCall ps @ [MoveCall [obj_id srcObj] d] @ map ListCall qs)"
        by auto
      ultimately show ?thesis by blast
    qed
  qed
qed

lemma Move_dirCache_other_basename:
  assumes diff: "path_Base (path_Join [root s, remote]) \<noteq> path_Base (obj_remote srcObj)"
    and mv: "Move_dirCache svc (DrimeObject srcObj) remote s = (Inr moved, s')"
  shows "\<exists>ps d qs. calls s' = calls s @ map ListCall ps @
           [MoveCall [obj_id srcObj] d,
            RenameCall (obj_id srcObj) (path_Base (path_Join [root s, remote]))] @
           map ListCall qs"
proof -
  define parent where "parent = (if path_Dir (path_Join [root s, remote]) \<noteq> [] \<and>
               path_Dir (path_Join [root s, remote]) \<noteq> ''.''
            then (case findEntry_dirCache svc (path_Dir (path_Join [root s, remote])) s of
                    (Inl err, s1) \<Rightarrow> (Inl err, s1)
                  | (Inr parentEntry, s1) \<Rightarrow> (Inr (ID parentEntry), s1))
            else (Inr 0, s))"
  obtain pr s1 where p: "parent = (pr, s1)" by (cases parent)
  obtain ps where ps: "calls s1 = calls s @ map ListCall ps"
    using Move_dirCache_parent_calls [OF p [unfolded parent_def]] by blast
  have u: "(case pr of
        Inl err \<Rightarrow> (Inl err, s1)
      | Inr d \<Rightarrow>
          (case on_moveEntries svc (length (calls s1)) [obj_id srcObj] d of
             Some err \<Rightarrow> (Inl err, s1\<lparr>calls := calls s1 @ [MoveCall [obj_id srcObj] d]\<rparr>)
           | None \<Rightarrow>
                 (case on_renameEntry svc (Suc (length (calls s1))) (obj_id srcObj)
                         (path_Base (path_Join [root s, remote])) of
                    Inl err \<Rightarrow>
                      (Inl err,
                       s1\<lparr>calls := calls s1 @
                            [MoveCall [obj_id srcObj] d,
                             RenameCall (obj_id srcObj) (path_Base (path_Join [root s, remote]))]\<rparr>)
                  | Inr renamed \<Rightarrow>
                      NewObject_dirCache svc remote
                        (s1\<lparr>calls := calls s1 @
                            [MoveCall [obj_id srcObj] d,
                             RenameCall (obj_id srcObj) (path_Base (path_Join [root s, remote]))]\<rparr>))))
       = (Inr moved, s')"
    using mv diff unfolding Move_dirCache_unfold parent_def [symmetric] p
    by (auto split: sum.splits option.splits)
  from u obtain d where d: "pr = Inr d" by (cases pr) auto
  from u d have mo: "on_moveEntries svc (length (calls s1)) [obj_id srcObj] d = None"
    by (cases "on_moveEntries svc (length (calls s1)) [obj_id srcObj] d") auto
  from u d mo obtain renamed where
    "on_renameEntry svc (Suc (length (calls s1))) (obj_id srcObj)
        (path_Base (path_Join [root s, remote])) = Inr renamed"
    by (cases "on_renameEntry svc (Suc (length (calls s1))) (obj_id srcObj)
        (path_Base (path_Join [root s, remote]))") auto
  with u d mo have "NewObject_dirCache svc remote
                        (s1\<lparr>calls := calls s1 @
                            [MoveCall [obj_id srcObj] d,
                             RenameCall (obj_id srcObj) (path_Base (path_Join [root s, remote]))]\<rparr>)
       = (Inr moved, s')"
    by simp
  from NewObject_dirCache_calls [OF this] obtain qs where
    "calls s' = calls s @ map ListCall ps @
           [MoveCall [obj_id srcObj] d,
            RenameCall (obj_id srcObj) (path_Base (path_Join [root s, remote]))] @
           map ListCall qs"
    using ps by auto
  then show ?thesis by blast
qed

subsection \<open>Download locator\<close>

text \<open>
  C8. The request address is a function of the locator alone: a locator that starts with
  \<^verbatim>\<open>http://\<close> or \<^verbatim>\<open>https://\<close> is used as it is; any other locator loses one leading
  slash, and is then put behind the service host when it starts with \<^verbatim>\<open>api/\<close> and behind
  the API base address otherwise. The locator \<^verbatim>\<open>api/v1/file-entries/42\<close> becomes
  \<^verbatim>\<open>https://app.drime.cloud/api/v1/file-entries/42\<close>.
\<close>

theorem download_locator_normalization:
  "(prefix ''http://'' u \<or> prefix ''https://'' u \<longrightarrow> download_url u = u) \<and>
   (\<not> prefix ''http://'' u \<and> \<not> prefix ''https://'' u \<longrightarrow>
      (let v = (case u of [] \<Rightarrow> [] | c # r \<Rightarrow> if c = CHR ''/'' then r else u) in
         (prefix ''api/'' v \<longrightarrow> download_url u = ''https://app.drime.cloud/'' @ v) \<and>
         (\<not> prefix ''api/'' v \<longrightarrow>
            download_url u = ''https://app.drime.cloud/api/v1'' @ ''/'' @ v))) \<and>
   download_url ''api/v1/file-entries/42'' = ''https://app.drime.cloud/api/v1/file-entries/42''"
proof -
  have ex: "download_url ''api/v1/file-entries/42''
              = ''https://app.drime.cloud/api/v1/file-entries/42''"
    by (simp add: download_url_def strings_HasPrefix_def strings_TrimPrefix_def)
  show ?thesis
    unfolding download_url_def Let_def strings_HasPrefix_prefix strings_TrimPrefix_slash
      apiBaseURL_def
    using ex [unfolded download_url_def Let_def strings_HasPrefix_prefix
        strings_TrimPrefix_slash apiBaseURL_def]
    by auto
qed

theorem download_locator_normalization_witness:
  "download_url ''https://cdn.example/f/1'' = ''https://cdn.example/f/1'' \<and>
   download_url ''http://cdn.example/f/1'' = ''http://cdn.example/f/1'' \<and>
   download_url ''/api/v1/file-entries/42'' = ''https://app.drime.cloud/api/v1/file-entries/42'' \<and>
   download_url ''/storage/x.bin'' = ''https://app.drime.cloud/api/v1/storage/x.bin'' \<and>
   download_url ''storage/x.bin'' = ''https://app.drime.cloud/api/v1/storage/x.bin''"
  using download_locator_normalization [of "''https://cdn.example/f/1''"]
    download_locator_normalization [of "''http://cdn.example/f/1''"]
    download_locator_normalization [of "''/api/v1/file-entries/42''"]
    download_locator_normalization [of "''/storage/x.bin''"]
    download_locator_normalization [of "''storage/x.bin''"]
  by (simp add: Let_def)

end
